theory Spec2Isabelle
  imports Main "HOL-Library.Sublist"
begin

section \<open>Python values\<close>

text \<open>
  Python strings are modelled as \<^typ>\<open>string\<close>, read as the UTF-8 bytes of the text.
  Concatenation, joining and the JSON escapes below act on ASCII bytes only, so they commute
  with that encoding. Library functions whose result depends on Unicode character classes
  (\<^verbatim>\<open>str.strip\<close>, the two regular expressions, \<^verbatim>\<open>urljoin\<close>) are
  parameters of the model, collected in the record \<open>pylib\<close>.
\<close>

text \<open>The decimal rendering of a non-negative integer inside an f-string.\<close>

fun string_of_nat :: "nat \<Rightarrow> string" where
  "string_of_nat n =
     (if n < 10 then [char_of (48 + n)]
      else string_of_nat (n div 10) @ [char_of (48 + n mod 10)])"

declare string_of_nat.simps [simp del]

text \<open>\<^verbatim>\<open>sep.join(xs)\<close>\<close>

fun join :: "string \<Rightarrow> string list \<Rightarrow> string" where
  "join sep [] = []"
| "join sep [x] = x"
| "join sep (x # y # ys) = x @ sep @ join sep (y # ys)"

text \<open>
  A Python \<^verbatim>\<open>dict\<close> keeps its keys in insertion order; \<^verbatim>\<open>d[k] = v\<close> on a
  key that is present replaces the value and leaves the key where it is.
\<close>

fun dict_set :: "('k \<times> 'v) list \<Rightarrow> 'k \<Rightarrow> 'v \<Rightarrow> ('k \<times> 'v) list" where
  "dict_set [] k v = [(k, v)]"
| "dict_set ((k', v') # d) k v =
     (if k' = k then (k', v) # d else (k', v') # dict_set d k v)"

definition dict_keys :: "('k \<times> 'v) list \<Rightarrow> 'k list" where
  "dict_keys d = map fst d"

text \<open>
  pandas' \<^verbatim>\<open>drop_duplicates()\<close>: of equal rows the first one stays, where it is.
  (\<^const>\<open>remdups\<close> keeps the last occurrence, hence the two reversals.)
\<close>

definition drop_duplicates :: "'a list \<Rightarrow> 'a list" where
  "drop_duplicates xs = rev (remdups (rev xs))"

text \<open>
  \<^verbatim>\<open>json.dumps(d, ensure_ascii=False)\<close> for a dictionary from strings to strings:
  the quote, the backslash and the control characters below 0x20 are escaped, everything
  else is copied.
\<close>

definition hex_digit :: "nat \<Rightarrow> char" where
  "hex_digit n = (if n < 10 then char_of (48 + n) else char_of (87 + n))"

definition json_escape :: "char \<Rightarrow> string" where
  "json_escape c =
     (if c = CHR 0x22 then [CHR 0x5C, CHR 0x22]
      else if c = CHR 0x5C then [CHR 0x5C, CHR 0x5C]
      else if c = CHR 0x0A then [CHR 0x5C, CHR ''n'']
      else if c = CHR 0x0D then [CHR 0x5C, CHR ''r'']
      else if c = CHR 0x09 then [CHR 0x5C, CHR ''t'']
      else if c = CHR 0x08 then [CHR 0x5C, CHR ''b'']
      else if c = CHR 0x0C then [CHR 0x5C, CHR ''f'']
      else if (of_char c :: nat) < 32
        then [CHR 0x5C, CHR ''u'', CHR ''0'', CHR ''0'',
              hex_digit ((of_char c :: nat) div 16), hex_digit ((of_char c :: nat) mod 16)]
      else [c])"

definition json_string :: "string \<Rightarrow> string" where
  "json_string s = CHR 0x22 # concat (map json_escape s) @ [CHR 0x22]"

definition json_dumps :: "(string \<times> string) list \<Rightarrow> string" where
  "json_dumps d =
     ''{'' @ join '', '' (map (\<lambda>(k, v). json_string k @ '': '' @ json_string v) d) @ ''}''"

text \<open>
  Reading such a text back, as \<^verbatim>\<open>json.loads\<close> does for an object whose values are
  strings: the pairs in the order of the text. It serves to say what the keys of a JSON field
  are. \<open>json_unquote\<close> reads a string literal after its opening quote and returns the text
  that follows it; \<open>json_members\<close> reads the members of an object after its opening brace
  (its first argument bounds the number of members).
\<close>

definition hex_value :: "char \<Rightarrow> nat option" where
  "hex_value c =
     (let n = (of_char c :: nat)
      in if 48 \<le> n \<and> n \<le> 57 then Some (n - 48)
         else if 97 \<le> n \<and> n \<le> 102 then Some (n - 87)
         else None)"

definition json_unescape :: "char \<Rightarrow> char option" where
  "json_unescape e =
     (if e = CHR 0x22 then Some (CHR 0x22)
      else if e = CHR 0x5C then Some (CHR 0x5C)
      else if e = CHR ''n'' then Some (CHR 0x0A)
      else if e = CHR ''r'' then Some (CHR 0x0D)
      else if e = CHR ''t'' then Some (CHR 0x09)
      else if e = CHR ''b'' then Some (CHR 0x08)
      else if e = CHR ''f'' then Some (CHR 0x0C)
      else None)"

fun json_unquote :: "string \<Rightarrow> string \<Rightarrow> (string \<times> string) option" where
  "json_unquote acc [] = None"
| "json_unquote acc [c] = (if c = CHR 0x22 then Some (acc, []) else None)"
| "json_unquote acc (c # e # r) =
     (if c = CHR 0x22 then Some (acc, e # r)
      else if c \<noteq> CHR 0x5C then json_unquote (acc @ [c]) (e # r)
      else if e = CHR ''u'' then
        (case r of
           a # b # x # y # r' \<Rightarrow>
             (if a = CHR ''0'' \<and> b = CHR ''0''
              then (case (hex_value x, hex_value y) of
                      (Some h, Some l) \<Rightarrow> json_unquote (acc @ [char_of (16 * h + l)]) r'
                    | _ \<Rightarrow> None)
              else None)
         | _ \<Rightarrow> None)
      else (case json_unescape e of
              Some d \<Rightarrow> json_unquote (acc @ [d]) r
            | None \<Rightarrow> None))"


fun drop_prefix :: "string \<Rightarrow> string \<Rightarrow> string option" where
  "drop_prefix [] s = Some s"
| "drop_prefix (p # ps) [] = None"
| "drop_prefix (p # ps) (c # cs) = (if p = c then drop_prefix ps cs else None)"

fun json_members :: "nat \<Rightarrow> string \<Rightarrow> (string \<times> string) list option" where
  "json_members 0 s = None"
| "json_members (Suc fuel) s =
     (case drop_prefix [CHR 0x22] s of
        None \<Rightarrow> None
      | Some s1 \<Rightarrow>
     (case json_unquote [] s1 of
        None \<Rightarrow> None
      | Some (k, s2) \<Rightarrow>
     (case drop_prefix ('': '' @ [CHR 0x22]) s2 of
        None \<Rightarrow> None
      | Some s3 \<Rightarrow>
     (case json_unquote [] s3 of
        None \<Rightarrow> None
      | Some (v, s4) \<Rightarrow>
          if s4 = ''}'' then Some [(k, v)]
          else (case drop_prefix '', '' s4 of
                  None \<Rightarrow> None
                | Some s5 \<Rightarrow> map_option ((#) (k, v)) (json_members fuel s5))))))"

definition json_loads :: "string \<Rightarrow> (string \<times> string) list option" where
  "json_loads s =
     (if s = ''{}'' then Some []
      else (case drop_prefix ''{'' s of
              None \<Rightarrow> None
            | Some s1 \<Rightarrow> json_members (length s) s1))"

text \<open>Python slicing \<^verbatim>\<open>xs[i:j]\<close> with integer bounds (negative bounds count from the end).\<close>

definition slice_index :: "nat \<Rightarrow> int \<Rightarrow> nat" where
  "slice_index len i = (if i < 0 then nat (int len + i) else min (nat i) len)"

definition py_slice :: "'a list \<Rightarrow> int \<Rightarrow> int \<Rightarrow> 'a list" where
  "py_slice xs i j =
     (let a = slice_index (length xs) i; b = slice_index (length xs) j
      in take (b - a) (drop a xs))"

record pylib =
  py_strip :: "string \<Rightarrow> string"
  re_sub_numbering :: "string \<Rightarrow> string"
  re_search_digits :: "string \<Rightarrow> string option"
  urljoin :: "string \<Rightarrow> string \<Rightarrow> string"

text \<open>
  \<open>py_strip\<close> is \<^verbatim>\<open>s.strip()\<close>, \<open>re_sub_numbering\<close> is
  \<^verbatim>\<open>re.sub(r'^\d+\.\s*', '', s)\<close>, \<open>re_search_digits\<close> is group 1 of
  \<^verbatim>\<open>re.search(r'(\d+)', s)\<close> (\<open>None\<close> when nothing matches) and
  \<open>urljoin base href\<close> is \<^verbatim>\<open>urllib.parse.urljoin\<close>.
\<close>

section \<open>Documents\<close>

text \<open>
  A fetched page is represented by the answers BeautifulSoup gives to the queries the
  scraper asks of it. A \<^verbatim>\<open>Tag\<close> is always truthy, so \<^verbatim>\<open>if not tag\<close> is
  the test for \<open>None\<close>.
\<close>

record a_tag =
  href :: "string option"
  a_text :: string

datatype h2_tag = H2 "a_tag option"

datatype li_tag = Li "h2_tag option"

datatype blockquote = Blockquote "string option"

record author_block =
  name_tag :: "string option"
  place_tag :: "string option"

record document =
  ul_articleLists :: "li_tag list option"
  abstract_div :: "string option"
  citation_block :: "blockquote option"
  author_blocks :: "author_block list"
  view_tag :: "string option"
  keyword_container :: "string list option"

text \<open>
  \<open>ul_articleLists\<close>: the \<^verbatim>\<open>li\<close> elements of \<^verbatim>\<open>ul#articleLists\<close>, each with
  its first \<^verbatim>\<open>h2\<close> and that heading's first \<^verbatim>\<open>a\<close>;
  \<open>abstract_div\<close>, \<open>view_tag\<close>: the \<^verbatim>\<open>.text\<close> of the selected element;
  \<open>citation_block\<close>: the block quote with the \<^verbatim>\<open>.text\<close> of its first paragraph;
  \<open>keyword_container\<close>: \<^verbatim>\<open>get_text(strip=True)\<close> of every \<^verbatim>\<open>div\<close> below
  the keyword container.
\<close>

section \<open>The asynchronous scraper (cwr.py)\<close>

definition MAX_RETRIES :: nat where
  "MAX_RETRIES = 3"

definition SAVE_EVERY :: nat where
  "SAVE_EVERY = 500"

record item_record =
  Conference_ID :: string
  Title :: string
  Link :: string
  Abstract :: string
  Citation :: string
  Authors :: string
  Conference_Name :: string
  Year :: string
  Keywords :: string
  View_Count :: string
  Page_Count :: string
  Authors_Map :: string

datatype csv_row = Header | Data item_record

record failure =
  conference_id :: string
  url :: string
  error :: string

text \<open>
  The scraper object together with the part of the world it touches: the output file
  (\<open>None\<close> when it does not exist), the failure log, the trace of the URLs requested
  from the network, oldest first, the lines written by \<^verbatim>\<open>logging.error\<close>, and the
  trace of the batches of rows handed to \<^verbatim>\<open>writer.writerows\<close>, oldest first.
\<close>

record scraper =
  failed_urls :: "failure list"
  result_rows :: "item_record list"
  processed_count :: nat
  output_csv :: "csv_row list option"
  failed_urls_log :: "failure list option"
  requests :: "string list"
  error_log :: "string list"
  flush_log :: "item_record list list"

text \<open>
  What a request yields: an exception with its message (from \<^verbatim>\<open>session.get\<close>, or from
  \<^verbatim>\<open>response.text()\<close> on a response with status 200), or a status and a body. The
  server sees the requests made so far, so it may answer the same URL differently each time.
\<close>

datatype response = Raised string | Resp nat document

type_synonym server = "string list \<Rightarrow> string \<Rightarrow> response"

definition http_get :: "server \<Rightarrow> string \<Rightarrow> scraper \<Rightarrow> response \<times> scraper" where
  "http_get srv u st = (srv (requests st) u, st\<lparr>requests := requests st @ [u]\<rparr>)"

definition save_results :: "scraper \<Rightarrow> scraper" where
  "save_results st =
     (if result_rows st = [] then st
      else st\<lparr>output_csv :=
                 Some ((case output_csv st of None \<Rightarrow> [Header] | Some f \<Rightarrow> f)
                       @ map Data (result_rows st)),
              flush_log := flush_log st @ [result_rows st],
              result_rows := []\<rparr>)"

fun article_of_li :: "pylib \<Rightarrow> string \<Rightarrow> li_tag \<Rightarrow> (string \<times> string \<times> string) option" where
  "article_of_li lib cid (Li None) = None"
| "article_of_li lib cid (Li (Some (H2 None))) = None"
| "article_of_li lib cid (Li (Some (H2 (Some a)))) =
     (case href a of
        None \<Rightarrow> None
      | Some h \<Rightarrow>
          if h = [] then None
          else Some (cid, re_sub_numbering lib (py_strip lib (a_text a)),
                     urljoin lib ''https://civilica.com/'' h))"

definition parse_article_list :: "pylib \<Rightarrow> document \<Rightarrow> string \<Rightarrow> (string \<times> string \<times> string) list" where
  "parse_article_list lib html cid =
     (case ul_articleLists html of
        None \<Rightarrow> []
      | Some lis \<Rightarrow> List.map_filter (article_of_li lib cid) lis)"

definition extract_keywords_from_page :: "document \<Rightarrow> string option" where
  "extract_keywords_from_page html =
     (case keyword_container html of
        None \<Rightarrow> None
      | Some divs \<Rightarrow>
          (let keywords = filter (\<lambda>t. t \<noteq> []) divs
           in if keywords = [] then None else Some (join '', '' keywords)))"

record details =
  d_abstract :: string
  d_citation :: string
  d_authors :: string
  d_conference :: string
  d_year :: string
  d_keywords :: string
  d_view_count :: string
  d_page_count :: string
  d_authors_map :: "(string \<times> string) list"

text \<open>The loop over the author blocks: a block without a name link is skipped.\<close>

definition authors_loop :: "pylib \<Rightarrow> author_block list \<Rightarrow> (string \<times> string) list" where
  "authors_loop lib blocks =
     foldl (\<lambda>m b. case name_tag b of
                     None \<Rightarrow> m
                   | Some n \<Rightarrow>
                       dict_set m (py_strip lib n)
                         (case place_tag b of None \<Rightarrow> [] | Some p \<Rightarrow> py_strip lib p))
           [] blocks"

definition attribute_error :: string where
  "attribute_error =
     [CHR 0x27] @ ''NoneType'' @ [CHR 0x27] @ '' object has no attribute ''
     @ [CHR 0x27] @ ''text'' @ [CHR 0x27]"

text \<open>
  \<open>parse_article_page\<close> returns \<open>Inl\<close> the message of the exception it raises: a
  citation block without a paragraph makes \<^verbatim>\<open>citation_block.find('p').text\<close> fail.
\<close>

definition parse_article_page :: "pylib \<Rightarrow> document \<Rightarrow> string + details" where
  "parse_article_page lib html =
     (let abstract = (case abstract_div html of None \<Rightarrow> [] | Some t \<Rightarrow> py_strip lib t)
      in case (case citation_block html of
                 None \<Rightarrow> Inr []
               | Some (Blockquote None) \<Rightarrow> Inl attribute_error
               | Some (Blockquote (Some t)) \<Rightarrow> Inr (py_strip lib t)) of
           Inl e \<Rightarrow> Inl e
         | Inr citation \<Rightarrow>
             (let authors_map = authors_loop lib (author_blocks html);
                  view_count =
                    (case view_tag html of
                       None \<Rightarrow> ''0''
                     | Some t \<Rightarrow>
                         (case re_search_digits lib (py_strip lib t) of
                            None \<Rightarrow> ''0''
                          | Some g \<Rightarrow> g));
                  keywords = extract_keywords_from_page html
              in Inr \<lparr>d_abstract = abstract,
                      d_citation = citation,
                      d_authors = join '', '' (dict_keys authors_map),
                      d_conference = [],
                      d_year = [],
                      d_keywords = (case keywords of None \<Rightarrow> [] | Some k \<Rightarrow> k),
                      d_view_count = view_count,
                      d_page_count = [],
                      d_authors_map = authors_map\<rparr>))"

text \<open>The two lines of an exception handler: the error is logged, then recorded.\<close>

definition record_failure :: "string \<Rightarrow> string \<Rightarrow> string \<Rightarrow> string \<Rightarrow> scraper \<Rightarrow> scraper" where
  "record_failure what cid u e st =
     st\<lparr>error_log := error_log st @ [what @ u @ '' - '' @ e],
        failed_urls := failed_urls st @ [\<lparr>conference_id = cid, url = u, error = e\<rparr>]\<rparr>"

definition process_article ::
  "pylib \<Rightarrow> server \<Rightarrow> string \<Rightarrow> string \<Rightarrow> string \<Rightarrow> scraper \<Rightarrow> item_record option \<times> scraper" where
  "process_article lib srv cid title link st =
     (let (resp, st1) = http_get srv link st
      in case resp of
           Raised e \<Rightarrow> (None, record_failure ''Article failed: '' cid link e st1)
         | Resp status html \<Rightarrow>
             if status \<noteq> 200
             then (None, record_failure ''Article failed: '' cid link (''Status '' @ string_of_nat status) st1)
             else (case parse_article_page lib html of
                     Inl e \<Rightarrow> (None, record_failure ''Article failed: '' cid link e st1)
                   | Inr d \<Rightarrow>
                       (Some \<lparr>Conference_ID = cid, Title = title, Link = link,
                               Abstract = d_abstract d, Citation = d_citation d,
                               Authors = d_authors d, Conference_Name = d_conference d,
                               Year = d_year d, Keywords = d_keywords d,
                               View_Count = d_view_count d, Page_Count = d_page_count d,
                               Authors_Map = json_dumps (d_authors_map d)\<rparr>,
                        st1\<lparr>processed_count := processed_count st1 + 1\<rparr>)))"

text \<open>
  The tasks of one listing page, gathered: the results come back in the order of the
  articles. The tasks run here one after the other, which is one of the schedules
  \<^verbatim>\<open>asyncio.gather\<close> allows.
\<close>

fun gather_articles ::
  "pylib \<Rightarrow> server \<Rightarrow> string \<Rightarrow> (string \<times> string \<times> string) list \<Rightarrow> scraper
     \<Rightarrow> item_record option list \<times> scraper" where
  "gather_articles lib srv cid [] st = ([], st)"
| "gather_articles lib srv cid ((c, title, link) # arts) st =
     (let (r, st1) = process_article lib srv cid title link st;
          (rs, st2) = gather_articles lib srv cid arts st1
      in (r # rs, st2))"

text \<open>
  The end of a page: the results that are not \<open>None\<close> join the buffer, and the buffer
  is saved once it holds \<open>save_every\<close> rows or more.
\<close>

definition collect_results :: "nat \<Rightarrow> item_record option list \<Rightarrow> scraper \<Rightarrow> scraper" where
  "collect_results save_every results st =
     (let st1 = st\<lparr>result_rows := result_rows st @ List.map_filter id results\<rparr>
      in if length (result_rows st1) \<ge> save_every then save_results st1 else st1)"

definition listing_url :: "string \<Rightarrow> nat \<Rightarrow> string" where
  "listing_url cid page = ''https://civilica.com/l/'' @ cid @ ''/pgn-'' @ string_of_nat page @ ''/''"

text \<open>
  The \<^verbatim>\<open>while True\<close> loop of \<open>process_conference\<close>, from a given page on. Every
  iteration costs one unit of fuel; \<open>None\<close> means the fuel ran out before the loop ended.
\<close>

fun walk_pages :: "nat \<Rightarrow> pylib \<Rightarrow> server \<Rightarrow> nat \<Rightarrow> string \<Rightarrow> nat \<Rightarrow> scraper \<Rightarrow> scraper option" where
  "walk_pages 0 lib srv save_every cid page st = None"
| "walk_pages (Suc fuel) lib srv save_every cid page st =
     (let (resp, st1) = http_get srv (listing_url cid page) st
      in case resp of
           Raised e \<Rightarrow> Some (record_failure ''Conference page failed: '' cid (listing_url cid page) e st1)
         | Resp status html \<Rightarrow>
             if status \<noteq> 200 then Some st1
             else (let articles = parse_article_list lib html cid
                   in if articles = [] then Some st1
                      else (let (results, st2) = gather_articles lib srv cid articles st1
                            in walk_pages fuel lib srv save_every cid (page + 1)
                                 (collect_results save_every results st2))))"

definition process_conference ::
  "nat \<Rightarrow> pylib \<Rightarrow> server \<Rightarrow> nat \<Rightarrow> string \<Rightarrow> scraper \<Rightarrow> scraper option" where
  "process_conference fuel lib srv save_every cid st = walk_pages fuel lib srv save_every cid 1 st"

text \<open>
  \<^verbatim>\<open>asyncio.gather\<close> over the conferences, one walk after the other (one of the
  schedules; the walks share the buffer, the failure list and the counter).
\<close>

fun gather_conferences ::
  "nat \<Rightarrow> pylib \<Rightarrow> server \<Rightarrow> nat \<Rightarrow> string list \<Rightarrow> scraper \<Rightarrow> scraper option" where
  "gather_conferences fuel lib srv save_every [] st = Some st"
| "gather_conferences fuel lib srv save_every (cid # cids) st =
     (case process_conference fuel lib srv save_every cid st of
        None \<Rightarrow> None
      | Some st1 \<Rightarrow> gather_conferences fuel lib srv save_every cids st1)"

record args =
  arg_start :: int
  arg_end :: int

text \<open>
  The input dataset as \<^verbatim>\<open>pd.read_csv\<close> returns it: the \<^verbatim>\<open>id\<close> (as a string) and
  the \<^verbatim>\<open>keywords\<close> cell of every row, \<open>None\<close> for an empty cell; no dataset at all when
  the file cannot be read.
\<close>

type_synonym dataset = "(string \<times> string option) list"

definition eligible_ids :: "dataset \<Rightarrow> string list" where
  "eligible_ids df =
     map fst (filter (\<lambda>(i, k). case k of None \<Rightarrow> False | Some s \<Rightarrow> s \<noteq> []) df)"

datatype outcome = Returned | Uncaught string

text \<open>The exit status of the interpreter: 0 when \<^verbatim>\<open>main()\<close> returns, 1 on an exception.\<close>

fun exit_status :: "outcome \<Rightarrow> nat" where
  "exit_status Returned = 0"
| "exit_status (Uncaught e) = 1"

definition run ::
  "nat \<Rightarrow> pylib \<Rightarrow> server \<Rightarrow> nat \<Rightarrow> args \<Rightarrow> dataset option \<Rightarrow> scraper
     \<Rightarrow> (outcome \<times> scraper) option" where
  "run fuel lib srv save_every a input st =
     (case input of
        None \<Rightarrow> Some (Uncaught ''read_csv'', st)
      | Some df \<Rightarrow>
          (let ids = py_slice (eligible_ids df) (arg_start a) (arg_end a);
               st1 = st\<lparr>output_csv := Some [Header]\<rparr>
           in case gather_conferences fuel lib srv save_every ids st1 of
                None \<Rightarrow> None
              | Some st2 \<Rightarrow>
                  (let st3 = save_results st2;
                       st4 = (if failed_urls st3 \<noteq> []
                              then st3\<lparr>failed_urls_log := Some (failed_urls st3)\<rparr>
                              else st3)
                   in Some (Returned, st4))))"

text \<open>\<^verbatim>\<open>CivilicaScraper.__init__\<close>: empty lists and a zero counter; the world stays.\<close>

definition init_scraper :: "scraper \<Rightarrow> scraper" where
  "init_scraper w = w\<lparr>failed_urls := [], result_rows := [], processed_count := 0\<rparr>"

definition invalid_range_message :: string where
  "invalid_range_message =
     ''Invalid start/end values. End must be greater than start, and start must be >= 0''"

definition main ::
  "nat \<Rightarrow> pylib \<Rightarrow> server \<Rightarrow> nat \<Rightarrow> args \<Rightarrow> dataset option \<Rightarrow> scraper
     \<Rightarrow> (outcome \<times> scraper) option" where
  "main fuel lib srv save_every a input w =
     (if arg_start a < 0 \<or> arg_end a \<le> arg_start a
      then Some (Returned, w\<lparr>error_log := error_log w @ [invalid_range_message]\<rparr>)
      else run fuel lib srv save_every a input (init_scraper w))"

text \<open>The rows the scraper has produced so far: those in the file, then those in the buffer.\<close>

fun data_rows :: "csv_row list \<Rightarrow> item_record list" where
  "data_rows [] = []"
| "data_rows (Header # f) = data_rows f"
| "data_rows (Data r # f) = r # data_rows f"

definition emitted :: "scraper \<Rightarrow> item_record list" where
  "emitted st =
     (case output_csv st of None \<Rightarrow> [] | Some f \<Rightarrow> data_rows f) @ result_rows st"

text \<open>The buffer and the file after the results of several pages, one page after the other.\<close>

definition collect_pages :: "nat \<Rightarrow> item_record option list list \<Rightarrow> scraper \<Rightarrow> scraper" where
  "collect_pages save_every batches st = foldl (\<lambda>s results. collect_results save_every results s) st batches"


text \<open>
  The records that join the buffer on the listing pages of a walk, page by page: the loop of
  \<open>process_conference\<close> once more, keeping for every page that is gathered the results
  that are not \<open>None\<close>. Then the same for the collections of a run, one walk after the
  other.
\<close>

fun walk_results ::
  "nat \<Rightarrow> pylib \<Rightarrow> server \<Rightarrow> nat \<Rightarrow> string \<Rightarrow> nat \<Rightarrow> scraper \<Rightarrow> item_record list list" where
  "walk_results 0 lib srv save_every cid page st = []"
| "walk_results (Suc fuel) lib srv save_every cid page st =
     (let (resp, st1) = http_get srv (listing_url cid page) st
      in case resp of
           Raised e \<Rightarrow> []
         | Resp status html \<Rightarrow>
             if status \<noteq> 200 then []
             else (let articles = parse_article_list lib html cid
                   in if articles = [] then []
                      else (let (results, st2) = gather_articles lib srv cid articles st1
                            in List.map_filter id results
                               # walk_results fuel lib srv save_every cid (page + 1)
                                   (collect_results save_every results st2))))"

fun conferences_results ::
  "nat \<Rightarrow> pylib \<Rightarrow> server \<Rightarrow> nat \<Rightarrow> string list \<Rightarrow> scraper \<Rightarrow> item_record list list" where
  "conferences_results fuel lib srv save_every [] st = []"
| "conferences_results fuel lib srv save_every (cid # cids) st =
     walk_results fuel lib srv save_every cid 1 st
     @ (case process_conference fuel lib srv save_every cid st of
          None \<Rightarrow> []
        | Some st1 \<Rightarrow> conferences_results fuel lib srv save_every cids st1)"

definition run_results ::
  "nat \<Rightarrow> pylib \<Rightarrow> server \<Rightarrow> nat \<Rightarrow> args \<Rightarrow> dataset \<Rightarrow> scraper \<Rightarrow> item_record list list" where
  "run_results fuel lib srv save_every a df st =
     conferences_results fuel lib srv save_every
       (py_slice (eligible_ids df) (arg_start a) (arg_end a)) (st\<lparr>output_csv := Some [Header]\<rparr>)"

text \<open>The Result Sink of the scraper: the batches written so far, the file and the buffer.\<close>

definition sink :: "scraper \<Rightarrow> item_record list list \<times> csv_row list option \<times> item_record list" where
  "sink st = (flush_log st, output_csv st, result_rows st)"

subsection \<open>An ASCII instance of the library functions\<close>

text \<open>
  For evaluation on concrete pages: the library functions on ASCII text, with
  \<^verbatim>\<open>urljoin\<close> for a base of the form scheme://host/ and an \<open>href\<close> that is an
  absolute http(s) URL, a path from the root, or a plain relative path.
\<close>

definition ascii_space :: "char \<Rightarrow> bool" where
  "ascii_space c =
     (c = CHR 0x20 \<or> c = CHR 0x09 \<or> c = CHR 0x0A \<or> c = CHR 0x0B \<or> c = CHR 0x0C \<or> c = CHR 0x0D)"

definition ascii_digit :: "char \<Rightarrow> bool" where
  "ascii_digit c = (48 \<le> (of_char c :: nat) \<and> (of_char c :: nat) \<le> 57)"

definition ascii_strip :: "string \<Rightarrow> string" where
  "ascii_strip s = rev (dropWhile ascii_space (rev (dropWhile ascii_space s)))"

definition ascii_sub_numbering :: "string \<Rightarrow> string" where
  "ascii_sub_numbering s =
     (if takeWhile ascii_digit s = [] then s
      else (case dropWhile ascii_digit s of
              [] \<Rightarrow> s
            | c # r \<Rightarrow> if c = CHR ''.'' then dropWhile ascii_space r else s))"

definition ascii_search_digits :: "string \<Rightarrow> string option" where
  "ascii_search_digits s =
     (let r = dropWhile (\<lambda>c. \<not> ascii_digit c) s
      in if r = [] then None else Some (takeWhile ascii_digit r))"

definition simple_urljoin :: "string \<Rightarrow> string \<Rightarrow> string" where
  "simple_urljoin base h =
     (if take 7 h = ''http://'' \<or> take 8 h = ''https://'' then h
      else if take 1 h = ''/'' then butlast base @ h
      else base @ h)"

definition ascii_lib :: pylib where
  "ascii_lib = \<lparr>py_strip = ascii_strip, re_sub_numbering = ascii_sub_numbering,
                re_search_digits = ascii_search_digits, urljoin = simple_urljoin\<rparr>"

section \<open>The browser scraper (scr.py)\<close>




















text \<open>
  The cells of a data frame. \<^verbatim>\<open>pd.read_csv\<close> decides the type of a column from its
  content, so a log read back need not hold the strings that were written.
\<close>

datatype cell = Str string | Num int | NaN



section \<open>The redirect resolver (redirect\_resolver.py)\<close>

record link_row =
  website :: "string option"
  other_columns :: "string list"

text \<open>
  The output file: absent, present but not readable as a frame with the URL column, or a
  frame of the input rows with the \<^verbatim>\<open>Final URL\<close> column (\<open>None\<close> for an empty cell).
\<close>

datatype output_file = Missing | Unreadable | Frame "(link_row \<times> string option) list"

text \<open>A worker returns the final URL of a link, or raises (\<open>None\<close>).\<close>

type_synonym resolver = "string \<Rightarrow> string option"

definition iloc :: "'a list \<Rightarrow> int \<Rightarrow> int option \<Rightarrow> 'a list" where
  "iloc df i j = py_slice df i (case j of None \<Rightarrow> int (length df) | Some e \<Rightarrow> e)"

definition already_done :: "output_file \<Rightarrow> string option list" where
  "already_done out = (case out of Frame rows \<Rightarrow> map (\<lambda>(r, f). website r) rows | _ \<Rightarrow> [])"

definition snapshot ::
  "(string \<rightharpoonup> string option) \<Rightarrow> link_row list \<Rightarrow> output_file" where
  "snapshot results sliced_df =
     Frame (map (\<lambda>r. (r, case website r of
                           None \<Rightarrow> None
                         | Some x \<Rightarrow> (case results x of None \<Rightarrow> None | Some v \<Rightarrow> v)))
                sliced_df)"

text \<open>
  The loop over the completed futures, here in the order of submission: \<open>n_futures\<close> is
  \<^verbatim>\<open>len(future_to_url)\<close>, \<open>completed_count\<close> the count before this completion.
  \<^verbatim>\<open>completed_count % save_every\<close> raises when \<open>save_every\<close> is zero.
\<close>

fun completed_loop ::
  "int \<Rightarrow> resolver \<Rightarrow> link_row list \<Rightarrow> nat \<Rightarrow> string list \<Rightarrow> nat
     \<Rightarrow> (string \<rightharpoonup> string option) \<Rightarrow> output_file
     \<Rightarrow> string + ((string \<rightharpoonup> string option) \<times> output_file)" where
  "completed_loop save_every resolve sliced_df n_futures [] completed_count results out =
     Inr (results, out)"
| "completed_loop save_every resolve sliced_df n_futures (u # us) completed_count results out =
     (let results1 = results(u \<mapsto> resolve u);
          count1 = completed_count + 1
      in if save_every = 0 then Inl ''ZeroDivisionError''
         else completed_loop save_every resolve sliced_df n_futures us count1 results1
                (if int count1 mod save_every = 0 \<or> count1 = n_futures
                 then snapshot results1 sliced_df else out))"

record resolver_run =
  submitted :: "string list"
  final_output :: output_file

definition resolver_main ::
  "link_row list option \<Rightarrow> output_file \<Rightarrow> int \<Rightarrow> int option \<Rightarrow> int \<Rightarrow> resolver
     \<Rightarrow> string + resolver_run" where
  "resolver_main input out start_index end_index save_every resolve =
     (case input of
        None \<Rightarrow> Inl ''KeyError''
      | Some df \<Rightarrow>
          (let sliced_df = iloc df start_index end_index;
               urls = List.map_filter website sliced_df;
               done_set = already_done out;
               todo = filter (\<lambda>u. Some u \<notin> set done_set) urls
           in case completed_loop save_every resolve sliced_df (length todo) todo 0 Map.empty out of
                Inl e \<Rightarrow> Inl e
              | Inr (results, out1) \<Rightarrow>
                  Inr \<lparr>submitted = todo, final_output = snapshot results sliced_df\<rparr>))"

section \<open>Concrete inputs\<close>

text \<open>A world with no file and no request yet, and a scraper that has done nothing.\<close>

definition fresh_world :: scraper where
  "fresh_world = \<lparr>failed_urls = [], result_rows = [], processed_count = 0, output_csv = None,
                  failed_urls_log = None, requests = [], error_log = [], flush_log = []\<rparr>"

text \<open>A page on which none of the queries finds anything.\<close>

definition blank_page :: document where
  "blank_page = \<lparr>ul_articleLists = None, abstract_div = None, citation_block = None,
                 author_blocks = [], view_tag = None, keyword_container = None\<rparr>"



definition unavailable_server :: server where
  "unavailable_server history u = Resp 503 blank_page"

definition blank_server :: server where
  "blank_server history u = Resp 200 blank_page"



definition blank_record :: item_record where
  "blank_record =
     \<lparr>Conference_ID = ''7'', Title = ''A paper'', Link = ''https://civilica.com/doc/1'',
      Abstract = [], Citation = [], Authors = [], Conference_Name = [], Year = [],
      Keywords = [], View_Count = ''0'', Page_Count = [], Authors_Map = ''{}''\<rparr>"

text \<open>A page with four author blocks: a name with blanks around it, a block without a name, a block
  without an affiliation, and the first name again.\<close>

definition authors_page :: document where
  "authors_page =
     blank_page\<lparr>author_blocks :=
       [\<lparr>name_tag = Some '' Ada '', place_tag = Some ''X''\<rparr>,
        \<lparr>name_tag = None, place_tag = Some ''Y''\<rparr>,
        \<lparr>name_tag = Some ''Bob'', place_tag = None\<rparr>,
        \<lparr>name_tag = Some ''Ada'', place_tag = Some ''Z''\<rparr>]\<rparr>"

definition authors_server :: server where
  "authors_server history u = Resp 200 authors_page"


text \<open>The record of an item whose page is \<open>authors_page\<close>.\<close>

definition authors_record :: item_record where
  "authors_record =
     blank_record\<lparr>Authors := ''Ada, Bob'',
       Authors_Map := [CHR ''{'', CHR 0x22] @ ''Ada'' @ [CHR 0x22] @ '': '' @ [CHR 0x22] @ ''Z'' @ [CHR 0x22]
          @ '', '' @ [CHR 0x22] @ ''Bob'' @ [CHR 0x22] @ '': '' @ [CHR 0x22, CHR 0x22] @ ''}''\<rparr>"


text \<open>A collection with one listing page that names one item, and its run.\<close>

definition one_page_listing :: document where
  "one_page_listing =
     blank_page\<lparr>ul_articleLists :=
       Some [Li (Some (H2 (Some \<lparr>href = Some ''/doc/1'', a_text = ''1. A paper''\<rparr>)))]\<rparr>"

definition one_item_server :: server where
  "one_item_server history u =
     (if u = ''https://civilica.com/l/7/pgn-1/'' then Resp 200 one_page_listing else Resp 200 blank_page)"

definition one_item_run :: scraper where
  "one_item_run =
     \<lparr>failed_urls = [], result_rows = [], processed_count = 1,
      output_csv = Some [Header, Data blank_record],
      failed_urls_log = None,
      requests = [''https://civilica.com/l/7/pgn-1/'', ''https://civilica.com/doc/1'',
                  ''https://civilica.com/l/7/pgn-2/''],
      error_log = [], flush_log = [[blank_record]]\<rparr>"

text \<open>
  A collection whose listing pages are given as lists of item paths: page \<open>n\<close> names the
  items of the \<open>n\<close>-th list, every item has the title ``A paper'', and every other URL
  (the items, the page after the last) answers with a blank page.
\<close>

definition listing_of :: "string list \<Rightarrow> document" where
  "listing_of paths =
     blank_page\<lparr>ul_articleLists :=
       Some (map (\<lambda>t. Li (Some (H2 (Some \<lparr>href = Some (CHR ''/'' # t), a_text = ''A paper''\<rparr>)))) paths)\<rparr>"

fun page_lookup :: "nat \<Rightarrow> string list list \<Rightarrow> string \<Rightarrow> document option" where
  "page_lookup n [] u = None"
| "page_lookup n (p # ps) u =
     (if u = listing_url ''7'' n then Some (listing_of p) else page_lookup (Suc n) ps u)"

definition paged_server :: "string list list \<Rightarrow> server" where
  "paged_server pages history u =
     (case page_lookup 1 pages u of Some d \<Rightarrow> Resp 200 d | None \<Rightarrow> Resp 200 blank_page)"

definition item_url :: "string \<Rightarrow> string" where
  "item_url t = ''https://civilica.com/'' @ t"

text \<open>The record of an item of such a collection.\<close>

definition paper :: "string \<Rightarrow> item_record" where
  "paper t = blank_record\<lparr>Link := item_url t\<rparr>"

text \<open>Seven items, one per listing page; the same seven items, two per listing page.\<close>

definition one_per_page :: "string list list" where
  "one_per_page = [[''doc/1''], [''doc/2''], [''doc/3''], [''doc/4''], [''doc/5''],
                   [''doc/6''], [''doc/7'']]"

definition two_per_page :: "string list list" where
  "two_per_page = [[''doc/1'', ''doc/2''], [''doc/3'', ''doc/4''], [''doc/5'', ''doc/6''],
                   [''doc/7'']]"

text \<open>A dataset that names collection 7, and the arguments that select its first row.\<close>

definition collection_7 :: dataset where
  "collection_7 = [(''7'', Some ''k'')]"

definition first_only :: args where
  "first_only = \<lparr>arg_start = 0, arg_end = 1\<rparr>"






section \<open>Auxiliary facts\<close>

lemma data_rows_append: "data_rows (f @ g) = data_rows f @ data_rows g"
  by (induction f rule: data_rows.induct) simp_all

lemma data_rows_Data: "data_rows (map Data rs) = rs"
  by (induction rs) simp_all

lemma save_results_emitted: "emitted (save_results st) = emitted st"
  by (simp add: save_results_def emitted_def data_rows_append data_rows_Data split: option.splits)

lemma save_results_frame:
  "requests (save_results st) = requests st"
  "failed_urls (save_results st) = failed_urls st"
  "failed_urls_log (save_results st) = failed_urls_log st"
  "result_rows (save_results st) = []"
  by (simp_all add: save_results_def)

lemma collect_results_emitted:
  "emitted (collect_results k rs st) = emitted st @ List.map_filter id rs"
  by (simp add: collect_results_def Let_def save_results_emitted) (simp add: emitted_def)

lemma collect_results_frame:
  "requests (collect_results k rs st) = requests st"
  "failed_urls (collect_results k rs st) = failed_urls st"
  "failed_urls_log (collect_results k rs st) = failed_urls_log st"
  by (simp_all add: collect_results_def Let_def save_results_frame)

lemma process_article_effect:
  assumes "process_article lib srv cid title link st = (r, st')"
  shows "requests st' = requests st @ [link]"
    and "result_rows st' = result_rows st"
    and "output_csv st' = output_csv st"
    and "failed_urls_log st' = failed_urls_log st"
    and "r = Some row \<Longrightarrow> Conference_ID row = cid \<and> Link row = link \<and> failed_urls st' = failed_urls st"
    and "r = None \<Longrightarrow> length (failed_urls st') = Suc (length (failed_urls st))"
  using assms
  by (auto simp: process_article_def http_get_def record_failure_def Let_def
      split: response.splits sum.splits if_splits)

lemma gather_articles_effect:
  "gather_articles lib srv cid arts st = (rs, st') \<Longrightarrow>
     requests st' = requests st @ map (\<lambda>(c, t, l). l) arts \<and>
     result_rows st' = result_rows st \<and> output_csv st' = output_csv st \<and>
     failed_urls_log st' = failed_urls_log st \<and>
     list_all (\<lambda>row. Conference_ID row = cid) (List.map_filter id rs) \<and>
     subseq (map Link (List.map_filter id rs)) (map (\<lambda>(c, t, l). l) arts)"
proof (induction arts arbitrary: st rs st')
  case Nil
  then show ?case by (simp add: List.map_filter_simps)
next
  case (Cons a arts)
  obtain c title link where a: "a = (c, title, link)" by (cases a)
  obtain r st1 where pa: "process_article lib srv cid title link st = (r, st1)"
    by (cases "process_article lib srv cid title link st")
  obtain rs1 st2 where ga: "gather_articles lib srv cid arts st1 = (rs1, st2)"
    by (cases "gather_articles lib srv cid arts st1")
  from Cons.prems a pa ga have eq: "rs = r # rs1" "st' = st2" by simp_all
  note ih = Cons.IH [OF ga]
  note pe = process_article_effect [OF pa]
  show ?case
  proof (cases r)
    case None
    with ih pe(1-4) eq a show ?thesis
      by (auto simp: List.map_filter_simps intro: list_emb_Cons)
  next
    case (Some row)
    with ih pe(1-4) pe(5) [of row] eq a show ?thesis
      by (simp add: List.map_filter_simps)
  qed
qed



lemma emitted_requests_upd [simp]: "emitted (st\<lparr>requests := r\<rparr>) = emitted st"
  by (simp add: emitted_def)

lemma emitted_record_failure [simp]: "emitted (record_failure what cid u e st) = emitted st"
  by (simp add: emitted_def record_failure_def)



lemma string_of_nat_values:
  "string_of_nat (Suc 0) = ''1''" "string_of_nat 2 = ''2''" "string_of_nat 3 = ''3''"
  "string_of_nat 404 = ''404''" "string_of_nat 503 = ''503''"
  by code_simp+



lemma collect_results_file:
  "output_csv st = Some f \<Longrightarrow> \<exists>rows. output_csv (collect_results k rs st) = Some (f @ map Data rows)"
proof -
  assume f: "output_csv st = Some f"
  let ?st1 = "st\<lparr>result_rows := result_rows st @ List.map_filter id rs\<rparr>"
  have "collect_results k rs st = ?st1 \<or> collect_results k rs st = save_results ?st1"
    by (simp add: collect_results_def Let_def)
  then show ?thesis
  proof
    assume "collect_results k rs st = ?st1"
    with f have "output_csv (collect_results k rs st) = Some (f @ map Data [])" by simp
    then show ?thesis by blast
  next
    assume "collect_results k rs st = save_results ?st1"
    with f have "output_csv (collect_results k rs st) = Some (f @ map Data [])
      \<or> output_csv (collect_results k rs st) = Some (f @ map Data (result_rows ?st1))"
      by (simp add: save_results_def)
    then show ?thesis by blast
  qed
qed

lemma save_results_file:
  "output_csv st = Some f \<Longrightarrow> output_csv (save_results st) = Some (f @ map Data (result_rows st))"
  by (simp add: save_results_def)

lemma walk_pages_files:
  "walk_pages fuel lib srv k cid page st = Some st' \<Longrightarrow> output_csv st = Some f \<Longrightarrow>
     failed_urls_log st' = failed_urls_log st \<and> (\<exists>rows. output_csv st' = Some (f @ map Data rows))"
proof (induction fuel arbitrary: page st f)
  case 0
  then show ?case by simp
next
  case (Suc fuel)
  let ?u = "listing_url cid page"
  let ?st1 = "st\<lparr>requests := requests st @ [?u]\<rparr>"
  have nil: "f = f @ map Data []" by simp
  show ?case
  proof (cases "srv (requests st) ?u")
    case (Raised e)
    with Suc.prems(1) have "st' = record_failure ''Conference page failed: '' cid ?u e ?st1"
      by (simp add: http_get_def)
    with Suc.prems(2) have "failed_urls_log st' = failed_urls_log st" "output_csv st' = Some f"
      by (simp_all add: record_failure_def)
    with nil show ?thesis by metis
  next
    case (Resp status html)
    show ?thesis
    proof (cases "status \<noteq> 200 \<or> parse_article_list lib html cid = []")
      case True
      with Suc.prems(1) Resp have "st' = ?st1"
        by (auto simp: http_get_def Let_def split: if_splits)
      with Suc.prems(2) have "failed_urls_log st' = failed_urls_log st" "output_csv st' = Some f"
        by simp_all
      with nil show ?thesis by metis
    next
      case False
      let ?arts = "parse_article_list lib html cid"
      obtain results st2 where ga: "gather_articles lib srv cid ?arts ?st1 = (results, st2)"
        by (cases "gather_articles lib srv cid ?arts ?st1")
      let ?st3 = "collect_results k results st2"
      from Suc.prems(1) Resp False ga
      have rec: "walk_pages fuel lib srv k cid (page + 1) ?st3 = Some st'"
        by (simp add: http_get_def Let_def)
      note ge = gather_articles_effect [OF ga]
      from ge Suc.prems(2) have f2: "output_csv st2 = Some f" by simp
      from collect_results_file [OF f2] obtain rows where
        f3: "output_csv ?st3 = Some (f @ map Data rows)" by blast
      from Suc.IH [OF rec f3] obtain rows' where
        "failed_urls_log st' = failed_urls_log ?st3"
        "output_csv st' = Some ((f @ map Data rows) @ map Data rows')" by blast
      with ge have "failed_urls_log st' = failed_urls_log st"
        "output_csv st' = Some (f @ map Data (rows @ rows'))"
        by (simp_all add: collect_results_frame)
      then show ?thesis by blast
    qed
  qed
qed

lemma gather_conferences_files:
  "gather_conferences fuel lib srv k ids st = Some st' \<Longrightarrow> output_csv st = Some f \<Longrightarrow>
     failed_urls_log st' = failed_urls_log st \<and> (\<exists>rows. output_csv st' = Some (f @ map Data rows))"
proof (induction ids arbitrary: st f)
  case Nil
  then show ?case by (auto intro: exI [of _ "[]"])
next
  case (Cons cid ids)
  from Cons.prems(1) obtain st1 where
    w: "walk_pages fuel lib srv k cid 1 st = Some st1" and
    g: "gather_conferences fuel lib srv k ids st1 = Some st'"
    by (auto simp: process_conference_def split: option.splits)
  from walk_pages_files [OF w Cons.prems(2)] obtain rows where
    l1: "failed_urls_log st1 = failed_urls_log st" and f1: "output_csv st1 = Some (f @ map Data rows)"
    by blast
  from Cons.IH [OF g f1] obtain rows' where
    "failed_urls_log st' = failed_urls_log st1"
    "output_csv st' = Some ((f @ map Data rows) @ map Data rows')" by blast
  with l1 have "failed_urls_log st' = failed_urls_log st"
    "output_csv st' = Some (f @ map Data (rows @ rows'))" by simp_all
  then show ?case by blast
qed

lemma run_files:
  assumes "run fuel lib srv k a (Some df) st = Some (oc, st')"
  shows "oc = Returned"
    and "\<exists>rows. output_csv st' = Some (Header # map Data rows)"
    and "result_rows st' = []"
    and "failed_urls_log st' = (if failed_urls st' = [] then failed_urls_log st else Some (failed_urls st'))"
proof -
  let ?st1 = "st\<lparr>output_csv := Some [Header]\<rparr>"
  let ?ids = "py_slice (eligible_ids df) (arg_start a) (arg_end a)"
  from assms obtain st2 where
    g: "gather_conferences fuel lib srv k ?ids ?st1 = Some st2"
    by (auto simp: run_def Let_def split: option.splits)
  have f1: "output_csv ?st1 = Some [Header]" by simp
  from gather_conferences_files [OF g f1] obtain rows where
    l2: "failed_urls_log st2 = failed_urls_log st" and f2: "output_csv st2 = Some ([Header] @ map Data rows)"
    by auto
  let ?st3 = "save_results st2"
  from assms g have oc: "oc = Returned"
    and st': "st' = (if failed_urls ?st3 \<noteq> [] then ?st3\<lparr>failed_urls_log := Some (failed_urls ?st3)\<rparr> else ?st3)"
    by (auto simp: run_def Let_def)
  show "oc = Returned" by (rule oc)
  have f3: "output_csv ?st3 = Some (Header # map Data (rows @ result_rows st2))"
    using save_results_file [OF f2] by simp
  from st' f3 have "output_csv st' = Some (Header # map Data (rows @ result_rows st2))"
    by (simp split: if_splits)
  then show "\<exists>rows. output_csv st' = Some (Header # map Data rows)"
    by blast
  from st' show "result_rows st' = []"
    by (simp add: save_results_frame split: if_splits)
  from st' l2 show "failed_urls_log st' = (if failed_urls st' = [] then failed_urls_log st else Some (failed_urls st'))"
    by (simp add: save_results_frame split: if_splits)
qed

lemma collect_pages_file:
  "output_csv st = Some f \<Longrightarrow> \<exists>rows. output_csv (collect_pages k batches st) = Some (f @ map Data rows)"
proof (induction batches arbitrary: st f)
  case Nil
  then show ?case by (auto simp: collect_pages_def intro: exI [of _ "[]"])
next
  case (Cons b batches)
  from collect_results_file [OF Cons.prems] obtain rows where
    f1: "output_csv (collect_results k b st) = Some (f @ map Data rows)" by blast
  from Cons.IH [OF f1] obtain rows' where
    "output_csv (collect_pages k batches (collect_results k b st)) = Some ((f @ map Data rows) @ map Data rows')"
    by blast
  then have "output_csv (collect_pages k (b # batches) st) = Some (f @ map Data (rows @ rows'))"
    by (simp add: collect_pages_def)
  then show ?case by blast
qed

lemma dict_set_keys:
  "map fst (dict_set d k v) = (if k \<in> set (map fst d) then map fst d else map fst d @ [k])"
proof (induction d)
  case Nil
  then show ?case by simp
next
  case (Cons p d)
  obtain k' v' where p: "p = (k', v')" by (cases p)
  show ?case
  proof (cases "k' = k")
    case True
    with p show ?thesis by simp
  next
    case False
    with p Cons show ?thesis by simp
  qed
qed

lemma drop_duplicates_snoc:
  "drop_duplicates (xs @ [x]) = (if x \<in> set xs then drop_duplicates xs else drop_duplicates xs @ [x])"
  by (simp add: drop_duplicates_def)

lemma set_drop_duplicates: "set (drop_duplicates xs) = set xs"
  by (simp add: drop_duplicates_def)


lemma authors_loop_snoc:
  "authors_loop lib (blocks @ [b]) =
     (case name_tag b of
        None \<Rightarrow> authors_loop lib blocks
      | Some n \<Rightarrow> dict_set (authors_loop lib blocks) (py_strip lib n)
                   (case place_tag b of None \<Rightarrow> [] | Some p \<Rightarrow> py_strip lib p))"
  by (simp add: authors_loop_def split: option.splits)

lemma map_filter_snoc:
  "List.map_filter f (xs @ [x]) = List.map_filter f xs @ (case f x of None \<Rightarrow> [] | Some y \<Rightarrow> [y])"
  by (simp add: List.map_filter_def split: option.splits)

lemma authors_loop_keys:
  "dict_keys (authors_loop lib blocks) =
     drop_duplicates (map (py_strip lib) (List.map_filter name_tag blocks))"
proof (induction blocks rule: rev_induct)
  case Nil
  then show ?case by (simp add: authors_loop_def dict_keys_def drop_duplicates_def List.map_filter_simps)
next
  case (snoc b blocks)
  let ?names = "map (py_strip lib) (List.map_filter name_tag blocks)"
  from snoc have ih: "map fst (authors_loop lib blocks) = drop_duplicates ?names"
    by (simp add: dict_keys_def)
  show ?case
  proof (cases "name_tag b")
    case None
    with ih show ?thesis
      by (simp add: authors_loop_snoc map_filter_snoc dict_keys_def)
  next
    case (Some n)
    have s: "set (map fst (authors_loop lib blocks)) = set ?names"
      by (simp only: ih set_drop_duplicates)
    have "map fst (authors_loop lib (blocks @ [b])) =
            (if py_strip lib n \<in> set ?names then drop_duplicates ?names
             else drop_duplicates ?names @ [py_strip lib n])"
      by (simp only: authors_loop_snoc Some option.case dict_set_keys s) (simp only: ih)
    also have "\<dots> = drop_duplicates (?names @ [py_strip lib n])"
      by (simp only: drop_duplicates_snoc)
    finally show ?thesis
      by (simp add: dict_keys_def map_filter_snoc Some)
  qed
qed



lemma authors_loop_Nil: "authors_loop lib [] = []"
  by (simp add: authors_loop_def)

lemma authors_loop_unnamed:
  "list_all (\<lambda>b. name_tag b = None) bs \<Longrightarrow> authors_loop lib bs = []"
  by (induction bs rule: rev_induct) (simp_all add: authors_loop_snoc authors_loop_Nil)

lemma parse_article_page_Inr:
  assumes "citation_block html \<noteq> Some (Blockquote None)"
  shows "parse_article_page lib html =
     Inr \<lparr>d_abstract = (case abstract_div html of None \<Rightarrow> [] | Some t \<Rightarrow> py_strip lib t),
          d_citation = (case citation_block html of
                          None \<Rightarrow> []
                        | Some (Blockquote None) \<Rightarrow> []
                        | Some (Blockquote (Some t)) \<Rightarrow> py_strip lib t),
          d_authors = join '', '' (dict_keys (authors_loop lib (author_blocks html))),
          d_conference = [],
          d_year = [],
          d_keywords = (case extract_keywords_from_page html of None \<Rightarrow> [] | Some k \<Rightarrow> k),
          d_view_count = (case view_tag html of
                            None \<Rightarrow> ''0''
                          | Some t \<Rightarrow> (case re_search_digits lib (py_strip lib t) of
                                        None \<Rightarrow> ''0'' | Some g \<Rightarrow> g)),
          d_page_count = [],
          d_authors_map = authors_loop lib (author_blocks html)\<rparr>"
proof (cases "citation_block html")
  case None
  then show ?thesis by (simp add: parse_article_page_def Let_def)
next
  case (Some b)
  obtain x where b: "b = Blockquote x" by (cases b)
  with Some assms obtain t where "x = Some t" by (cases x) auto
  with Some b show ?thesis by (simp add: parse_article_page_def Let_def)
qed

lemma blank_article:
  "process_article ascii_lib blank_server ''7'' ''A paper'' ''https://civilica.com/doc/1'' fresh_world
   = (Some blank_record, fresh_world\<lparr>requests := [''https://civilica.com/doc/1''], processed_count := 1\<rparr>)"
  by code_simp

lemma process_article_Some:
  assumes "process_article lib srv cid title link st = (Some row, st')"
  shows "\<exists>html d. srv (requests st) link = Resp 200 html \<and> parse_article_page lib html = Inr d
     \<and> Authors row = d_authors d \<and> Authors_Map row = json_dumps (d_authors_map d)"
  using assms
  by (auto simp: process_article_def http_get_def split: response.splits if_splits sum.splits)

lemma parse_article_page_authors:
  assumes "parse_article_page lib html = Inr d"
  shows "d_authors_map d = authors_loop lib (author_blocks html)"
    and "d_authors d = join '', '' (dict_keys (authors_loop lib (author_blocks html)))"
proof -
  from assms have "citation_block html \<noteq> Some (Blockquote None)"
    by (auto simp: parse_article_page_def)
  from parse_article_page_Inr [OF this, of lib] assms
  show "d_authors_map d = authors_loop lib (author_blocks html)"
    and "d_authors d = join '', '' (dict_keys (authors_loop lib (author_blocks html)))"
    by auto
qed

lemma authors_article:
  "process_article ascii_lib authors_server ''7'' ''A paper'' ''https://civilica.com/doc/1'' fresh_world
   = (Some authors_record, fresh_world\<lparr>requests := [''https://civilica.com/doc/1''], processed_count := 1\<rparr>)"
  by code_simp



lemma one_item_run_eval:
  "run 2 ascii_lib one_item_server 1 \<lparr>arg_start = 0, arg_end = 1\<rparr>
        (Some [(''7'', Some ''k'')]) fresh_world = Some (Returned, one_item_run)"
  by code_simp

lemma collect_results_fields:
  "result_rows (collect_results k rs s) =
      (if k \<le> length (result_rows s @ List.map_filter id rs) then []
       else result_rows s @ List.map_filter id rs)"
  "output_csv (collect_results k rs s) =
      (if k \<le> length (result_rows s @ List.map_filter id rs) \<and> result_rows s @ List.map_filter id rs \<noteq> []
       then Some ((case output_csv s of None \<Rightarrow> [Header] | Some f \<Rightarrow> f)
                  @ map Data (result_rows s @ List.map_filter id rs))
       else output_csv s)"
  by (simp_all add: collect_results_def Let_def save_results_def)

lemma collect_pages_simps:
  "collect_pages k [] s = s"
  "collect_pages k (b # bs) s = collect_pages k bs (collect_results k b s)"
  by (simp_all add: collect_pages_def)

lemma save_results_fields:
  "result_rows (save_results s) = []"
  "output_csv (save_results s) =
     (if result_rows s = [] then output_csv s
      else Some ((case output_csv s of None \<Rightarrow> [Header] | Some f \<Rightarrow> f) @ map Data (result_rows s)))"
  by (simp_all add: save_results_def)

lemma hex_value_digit: "m < 16 \<Longrightarrow> hex_value (hex_digit m) = Some m"
  by (simp add: hex_value_def hex_digit_def Let_def)

lemma json_unquote_quote: "json_unquote acc (CHR 0x22 # rest) = Some (acc, rest)"
  by (cases rest) simp_all

lemma json_unquote_escape:
  "json_unquote acc (json_escape c @ e # r) = json_unquote (acc @ [c]) (e # r)"
proof -
  let ?n = "of_char c :: nat"
  have n: "?n < 32 \<Longrightarrow> ?n div 16 < 16 \<and> ?n mod 16 < 16" by simp
  have whole: "char_of (16 * (?n div 16) + ?n mod 16) = c" by simp
  show ?thesis
    using n whole
    by (simp add: json_escape_def json_unescape_def hex_value_digit)
qed

lemma json_unquote_escaped:
  "json_unquote acc (concat (map json_escape s) @ CHR 0x22 # rest) = Some (acc @ s, rest)"
proof (induction s arbitrary: acc)
  case Nil
  then show ?case by (simp add: json_unquote_quote)
next
  case (Cons c s)
  obtain e r where t: "concat (map json_escape s) @ CHR 0x22 # rest = e # r"
    by (cases "concat (map json_escape s) @ CHR 0x22 # rest") simp_all
  have "json_unquote acc (concat (map json_escape (c # s)) @ CHR 0x22 # rest)
          = json_unquote acc (json_escape c @ e # r)"
    by (simp add: t)
  also have "\<dots> = json_unquote (acc @ [c]) (e # r)"
    by (rule json_unquote_escape)
  also have "\<dots> = Some ((acc @ [c]) @ s, rest)"
    unfolding t [symmetric] by (rule Cons.IH)
  finally show ?case by simp
qed

lemma json_unquote_string:
  "json_unquote [] (tl (json_string s) @ rest) = Some (s, rest)"
  using json_unquote_escaped [of "[]" s rest] by (simp add: json_string_def)


lemma json_string_Cons: "json_string s = CHR 0x22 # tl (json_string s)"
  by (simp add: json_string_def)

lemma json_members_step:
  "json_members (Suc fuel) (json_string k @ '': '' @ json_string v @ rest) =
     (if rest = ''}'' then Some [(k, v)]
      else (case drop_prefix '', '' rest of
              None \<Rightarrow> None
            | Some s5 \<Rightarrow> map_option ((#) (k, v)) (json_members fuel s5)))"
proof -
  have a: "drop_prefix [CHR 0x22] (json_string k @ '': '' @ json_string v @ rest)
             = Some (tl (json_string k) @ ('': '' @ json_string v @ rest))"
    by (subst json_string_Cons) simp
  have b: "drop_prefix ('': '' @ [CHR 0x22]) ('': '' @ json_string v @ rest)
             = Some (tl (json_string v) @ rest)"
    by (subst json_string_Cons) simp
  show ?thesis
    by (simp only: json_members.simps a b json_unquote_string option.case prod.case)
qed

lemma json_members_join:
  "d \<noteq> [] \<Longrightarrow> length d \<le> fuel \<Longrightarrow>
     json_members fuel
       (join '', '' (map (\<lambda>(k, v). json_string k @ '': '' @ json_string v) d) @ ''}'') = Some d"
proof (induction d arbitrary: fuel)
  case Nil
  then show ?case by simp
next
  case (Cons kv d)
  obtain k v where kv: "kv = (k, v)" by (cases kv)
  from Cons.prems obtain f where fuel: "fuel = Suc f" and f: "length d \<le> f"
    by (cases fuel) simp_all
  let ?member = "\<lambda>(k, v). json_string k @ '': '' @ json_string v"
  show ?case
  proof (cases d)
    case Nil
    have "json_members (Suc f) (json_string k @ '': '' @ json_string v @ ''}'') = Some [(k, v)]"
      by (simp only: json_members_step simp_thms if_True)
    with Nil kv fuel show ?thesis by simp
  next
    case (Cons kv' d')
    let ?rest = "'', '' @ join '', '' (map ?member d) @ ''}''"
    have "json_members (Suc f) (json_string k @ '': '' @ json_string v @ ?rest)
            = (if ?rest = ''}'' then Some [(k, v)]
               else (case drop_prefix '', '' ?rest of
                       None \<Rightarrow> None
                     | Some s5 \<Rightarrow> map_option ((#) (k, v)) (json_members f s5)))"
      by (rule json_members_step)
    also have "\<dots> = map_option ((#) (k, v)) (json_members f (join '', '' (map ?member d) @ ''}''))"
      by simp
    also have "\<dots> = Some ((k, v) # d)"
      using Cons.IH [of f] f Cons by simp
    finally show ?thesis
      using Cons kv fuel by simp
  qed
qed

lemma length_join_members:
  "length d \<le> length (join '', '' (map (\<lambda>(k, v). json_string k @ '': '' @ json_string v) d))"
proof (induction d rule: induct_list012)
  case 1
  then show ?case by simp
next
  case (2 kv)
  then show ?case by (cases kv) (simp add: json_string_def)
next
  case (3 kv kv' d)
  then show ?case by (cases kv) (simp add: json_string_def)
qed

lemma json_loads_dumps: "json_loads (json_dumps d) = Some d"
proof (cases d)
  case Nil
  then show ?thesis by (simp add: json_loads_def json_dumps_def)
next
  case (Cons kv d')
  let ?body = "join '', '' (map (\<lambda>(k, v). json_string k @ '': '' @ json_string v) d)"
  obtain k v where kv: "kv = (k, v)" by (cases kv)
  have ne: "json_dumps d \<noteq> ''{}''"
  proof -
    have "length (json_dumps d) > 2"
      using Cons kv by (cases d') (simp_all add: json_dumps_def json_string_def)
    then show ?thesis by auto
  qed
  have "length d \<le> length (json_dumps d)"
    using length_join_members [of d] by (simp add: json_dumps_def)
  with Cons have "json_members (length (json_dumps d)) (?body @ ''}'') = Some d"
    by (intro json_members_join) simp_all
  with ne show ?thesis
    by (simp add: json_loads_def) (simp add: json_dumps_def)
qed

lemma authors_record_keys:
  "map_option dict_keys (json_loads (Authors_Map authors_record)) = Some [''Ada'', ''Bob'']"
  by code_simp

lemma blank_page_details:
  "parse_article_page ascii_lib blank_page =
     Inr \<lparr>d_abstract = [], d_citation = [], d_authors = [], d_conference = [], d_year = [],
          d_keywords = [], d_view_count = ''0'', d_page_count = [], d_authors_map = []\<rparr>"
  by code_simp

lemma json_dumps_Nil: "json_dumps [] = ''{}''"
  by (simp add: json_dumps_def)

lemma blank_item:
  assumes "\<And>h. srv h (item_url t) = Resp 200 blank_page"
  shows "process_article ascii_lib srv ''7'' ''A paper'' (item_url t) st =
     (Some (paper t), st\<lparr>requests := requests st @ [item_url t],
                          processed_count := processed_count st + 1\<rparr>)"
  by (simp add: process_article_def http_get_def assms blank_page_details json_dumps_Nil
      paper_def blank_record_def)

lemma blank_items:
  assumes "\<And>h t. t \<in> set ts \<Longrightarrow> srv h (item_url t) = Resp 200 blank_page"
  shows "gather_articles ascii_lib srv ''7'' (map (\<lambda>t. (''7'', ''A paper'', item_url t)) ts) st =
     (map (\<lambda>t. Some (paper t)) ts,
      st\<lparr>requests := requests st @ map item_url ts,
         processed_count := processed_count st + length ts\<rparr>)"
  using assms
proof (induction ts arbitrary: st)
  case Nil
  then show ?case by simp
next
  case (Cons t ts)
  have "process_article ascii_lib srv ''7'' ''A paper'' (item_url t) st =
     (Some (paper t), st\<lparr>requests := requests st @ [item_url t],
                          processed_count := processed_count st + 1\<rparr>)"
    by (rule blank_item) (simp add: Cons.prems)
  moreover have "gather_articles ascii_lib srv ''7'' (map (\<lambda>t. (''7'', ''A paper'', item_url t)) ts)
        (st\<lparr>requests := requests st @ [item_url t], processed_count := processed_count st + 1\<rparr>) =
     (map (\<lambda>t. Some (paper t)) ts,
      st\<lparr>requests := requests st @ [item_url t], processed_count := processed_count st + 1\<rparr>
        \<lparr>requests := requests (st\<lparr>requests := requests st @ [item_url t], processed_count := processed_count st + 1\<rparr>) @ map item_url ts,
         processed_count := processed_count (st\<lparr>requests := requests st @ [item_url t], processed_count := processed_count st + 1\<rparr>) + length ts\<rparr>)"
    by (rule Cons.IH) (simp add: Cons.prems)
  ultimately show ?case by simp
qed

lemma listing_of_articles:
  "parse_article_list ascii_lib (listing_of ts) ''7'' = map (\<lambda>t. (''7'', ''A paper'', item_url t)) ts"
proof -
  have title: "re_sub_numbering ascii_lib (py_strip ascii_lib ''A paper'') = ''A paper''"
    by code_simp
  have link: "urljoin ascii_lib ''https://civilica.com/'' (CHR ''/'' # t) = item_url t" for t
    by (simp add: ascii_lib_def simple_urljoin_def item_url_def)
  have "List.map_filter (article_of_li ascii_lib ''7'')
          (map (\<lambda>t. Li (Some (H2 (Some \<lparr>href = Some (CHR ''/'' # t), a_text = ''A paper''\<rparr>)))) ts)
        = map (\<lambda>t. (''7'', ''A paper'', item_url t)) ts"
    by (induction ts) (simp_all add: List.map_filter_simps title link)
  then show ?thesis
    by (simp add: parse_article_list_def listing_of_def blank_page_def)
qed

lemma page_step:
  assumes "\<And>h. srv h (listing_url ''7'' page) = Resp 200 (listing_of ts)"
    and "ts \<noteq> []"
    and "\<And>h t. t \<in> set ts \<Longrightarrow> srv h (item_url t) = Resp 200 blank_page"
  shows "walk_pages (Suc fuel) ascii_lib srv k ''7'' page st =
     walk_pages fuel ascii_lib srv k ''7'' (page + 1)
       (collect_results k (map (\<lambda>t. Some (paper t)) ts)
          (st\<lparr>requests := requests st @ listing_url ''7'' page # map item_url ts,
              processed_count := processed_count st + length ts\<rparr>))"
proof -
  have "gather_articles ascii_lib srv ''7'' (map (\<lambda>t. (''7'', ''A paper'', item_url t)) ts) s =
     (map (\<lambda>t. Some (paper t)) ts,
      s\<lparr>requests := requests s @ map item_url ts,
        processed_count := processed_count s + length ts\<rparr>)" for s
    using assms(3) by (rule blank_items)
  then show ?thesis
    using assms(2) by (simp add: http_get_def assms(1) listing_of_articles)
qed

lemma last_page:
  assumes "\<And>h. srv h (listing_url ''7'' page) = Resp 200 blank_page"
  shows "walk_pages (Suc fuel) ascii_lib srv k ''7'' page st =
     Some (st\<lparr>requests := requests st @ [listing_url ''7'' page]\<rparr>)"
  by (simp add: http_get_def assms parse_article_list_def blank_page_def)

lemma map_filter_id_Some: "List.map_filter id (map Some xs) = xs"
  by (induction xs) (simp_all add: List.map_filter_simps)

lemma sink_collect_results:
  "sink s = sink t \<Longrightarrow> sink (collect_results k rs s) = sink (collect_results k rs t)"
  by (simp add: sink_def collect_results_def Let_def save_results_def)

lemma sink_collect_pages:
  "sink s = sink t \<Longrightarrow> sink (collect_pages k ps s) = sink (collect_pages k ps t)"
proof (induction ps arbitrary: s t)
  case Nil
  then show ?case by (simp add: collect_pages_def)
next
  case (Cons p ps)
  from Cons.prems have "sink (collect_results k p s) = sink (collect_results k p t)"
    by (rule sink_collect_results)
  then have "sink (collect_pages k ps (collect_results k p s)) = sink (collect_pages k ps (collect_results k p t))"
    by (rule Cons.IH)
  then show ?case by (simp add: collect_pages_def)
qed

lemma sink_save_results: "sink s = sink t \<Longrightarrow> sink (save_results s) = sink (save_results t)"
  by (simp add: sink_def save_results_def)

lemma collect_pages_append:
  "collect_pages k (ps @ qs) st = collect_pages k qs (collect_pages k ps st)"
  by (simp add: collect_pages_def)

lemma process_article_flush:
  "process_article lib srv cid title link st = (r, st') \<Longrightarrow> flush_log st' = flush_log st"
  by (auto simp: process_article_def http_get_def record_failure_def Let_def
      split: response.splits sum.splits if_splits)

lemma gather_articles_flush:
  "gather_articles lib srv cid arts st = (rs, st') \<Longrightarrow> flush_log st' = flush_log st"
proof (induction arts arbitrary: st rs st')
  case Nil
  then show ?case by simp
next
  case (Cons a arts)
  obtain c title link where a: "a = (c, title, link)" by (cases a)
  obtain r st1 where pa: "process_article lib srv cid title link st = (r, st1)"
    by (cases "process_article lib srv cid title link st")
  obtain rs1 st2 where ga: "gather_articles lib srv cid arts st1 = (rs1, st2)"
    by (cases "gather_articles lib srv cid arts st1")
  from Cons.prems a pa ga have "st' = st2" by simp
  with Cons.IH [OF ga] process_article_flush [OF pa] show ?case by simp
qed

lemma walk_sink:
  "walk_pages fuel lib srv k cid page st = Some st' \<Longrightarrow>
     sink st' = sink (collect_pages k (map (map Some) (walk_results fuel lib srv k cid page st)) st)"
proof (induction fuel arbitrary: page st)
  case 0
  then show ?case by simp
next
  case (Suc fuel)
  let ?u = "listing_url cid page"
  let ?st1 = "st\<lparr>requests := requests st @ [?u]\<rparr>"
  show ?case
  proof (cases "srv (requests st) ?u")
    case (Raised e)
    with Suc.prems have "st' = record_failure ''Conference page failed: '' cid ?u e ?st1"
      by (simp add: http_get_def)
    moreover from Raised have "walk_results (Suc fuel) lib srv k cid page st = []"
      by (simp add: http_get_def)
    ultimately show ?thesis
      by (simp add: sink_def record_failure_def collect_pages_def)
  next
    case (Resp status html)
    show ?thesis
    proof (cases "status \<noteq> 200 \<or> parse_article_list lib html cid = []")
      case True
      with Suc.prems Resp have "st' = ?st1"
        by (auto simp: http_get_def Let_def split: if_splits)
      moreover from True Resp have "walk_results (Suc fuel) lib srv k cid page st = []"
        by (auto simp: http_get_def Let_def)
      ultimately show ?thesis
        by (simp add: sink_def collect_pages_def)
    next
      case False
      let ?arts = "parse_article_list lib html cid"
      obtain results st2 where ga: "gather_articles lib srv cid ?arts ?st1 = (results, st2)"
        by (cases "gather_articles lib srv cid ?arts ?st1")
      let ?st3 = "collect_results k results st2"
      let ?rest = "walk_results fuel lib srv k cid (page + 1) ?st3"
      from Suc.prems Resp False ga
      have rec: "walk_pages fuel lib srv k cid (page + 1) ?st3 = Some st'"
        by (simp add: http_get_def Let_def)
      from Resp False ga
      have res: "walk_results (Suc fuel) lib srv k cid page st = List.map_filter id results # ?rest"
        by (simp add: http_get_def Let_def)
      from gather_articles_effect [OF ga] gather_articles_flush [OF ga]
      have "sink st2 = sink st" by (simp add: sink_def)
      then have "sink ?st3 = sink (collect_results k results st)"
        by (rule sink_collect_results)
      also have "\<dots> = sink (collect_results k (map Some (List.map_filter id results)) st)"
        by (simp add: collect_results_def map_filter_id_Some)
      finally have "sink (collect_pages k (map (map Some) ?rest) ?st3)
        = sink (collect_pages k (map (map Some) ?rest)
             (collect_results k (map Some (List.map_filter id results)) st))"
        by (rule sink_collect_pages)
      with Suc.IH [OF rec] res show ?thesis
        by (simp add: collect_pages_def)
    qed
  qed
qed

lemma conferences_sink:
  "gather_conferences fuel lib srv k ids st = Some st' \<Longrightarrow>
     sink st' = sink (collect_pages k (map (map Some) (conferences_results fuel lib srv k ids st)) st)"
proof (induction ids arbitrary: st)
  case Nil
  then show ?case by (simp add: collect_pages_def)
next
  case (Cons cid ids)
  from Cons.prems obtain st1 where
    p: "process_conference fuel lib srv k cid st = Some st1" and
    g: "gather_conferences fuel lib srv k ids st1 = Some st'"
    by (auto split: option.splits)
  from p have w: "walk_pages fuel lib srv k cid 1 st = Some st1"
    by (simp add: process_conference_def)
  let ?a = "map (map Some) (walk_results fuel lib srv k cid 1 st)"
  let ?b = "map (map Some) (conferences_results fuel lib srv k ids st1)"
  have "sink st' = sink (collect_pages k ?b st1)"
    using g by (rule Cons.IH)
  also have "\<dots> = sink (collect_pages k ?b (collect_pages k ?a st))"
    using walk_sink [OF w] by (rule sink_collect_pages)
  finally show ?case
    using p by (simp add: collect_pages_append)
qed

lemma run_sink:
  assumes "run fuel lib srv k a (Some df) st = Some (oc, st')"
  shows "sink st' = sink (save_results (collect_pages k (map (map Some) (run_results fuel lib srv k a df st))
                            (st\<lparr>output_csv := Some [Header]\<rparr>)))"
proof -
  let ?st1 = "st\<lparr>output_csv := Some [Header]\<rparr>"
  let ?ids = "py_slice (eligible_ids df) (arg_start a) (arg_end a)"
  from assms obtain st2 where
    g: "gather_conferences fuel lib srv k ?ids ?st1 = Some st2"
    by (auto simp: run_def Let_def split: option.splits)
  let ?st3 = "save_results st2"
  from assms g
  have "st' = (if failed_urls ?st3 \<noteq> [] then ?st3\<lparr>failed_urls_log := Some (failed_urls ?st3)\<rparr> else ?st3)"
    by (auto simp: run_def Let_def)
  then have "sink st' = sink (save_results st2)"
    by (simp add: sink_def split: if_splits)
  also have "\<dots> = sink (save_results (collect_pages k (map (map Some) (conferences_results fuel lib srv k ?ids ?st1)) ?st1))"
    using conferences_sink [OF g] by (rule sink_save_results)
  finally show ?thesis by (simp add: run_results_def)
qed

lemma collect_results_flush:
  "flush_log (collect_results k rs s) =
      (if k \<le> length (result_rows s @ List.map_filter id rs) \<and> result_rows s @ List.map_filter id rs \<noteq> []
       then flush_log s @ [result_rows s @ List.map_filter id rs]
       else flush_log s)"
  by (simp add: collect_results_def Let_def save_results_def)

lemma save_results_flush:
  "flush_log (save_results s) = (if result_rows s = [] then flush_log s else flush_log s @ [result_rows s])"
  by (simp add: save_results_def)

lemma seven_pages_of_one:
  assumes "result_rows st = []" and "output_csv st = Some [Header]"
  shows "sink (save_results (collect_pages 3 [[Some r1], [Some r2], [Some r3], [Some r4], [Some r5], [Some r6], [Some r7]] st))
     = (flush_log st @ [[r1, r2, r3], [r4, r5, r6], [r7]],
        Some [Header, Data r1, Data r2, Data r3, Data r4, Data r5, Data r6, Data r7], [])"
proof -
  define s3 where "s3 = collect_pages 3 [[Some r1], [Some r2], [Some r3]] st"
  define s6 where "s6 = collect_pages 3 [[Some r4], [Some r5], [Some r6]] s3"
  define s7 where "s7 = collect_pages 3 [[Some r7]] s6"
  have f3: "output_csv s3 = Some [Header, Data r1, Data r2, Data r3]" "result_rows s3 = []"
    "flush_log s3 = flush_log st @ [[r1, r2, r3]]"
    by (simp_all add: s3_def collect_pages_simps collect_results_fields collect_results_flush assms
        List.map_filter_simps)
  have f6: "output_csv s6 = Some [Header, Data r1, Data r2, Data r3, Data r4, Data r5, Data r6]"
    "result_rows s6 = []" "flush_log s6 = flush_log st @ [[r1, r2, r3], [r4, r5, r6]]"
    by (simp_all add: s6_def collect_pages_simps collect_results_fields collect_results_flush f3
        List.map_filter_simps)
  have f7: "output_csv s7 = Some [Header, Data r1, Data r2, Data r3, Data r4, Data r5, Data r6]"
    "result_rows s7 = [r7]" "flush_log s7 = flush_log st @ [[r1, r2, r3], [r4, r5, r6]]"
    by (simp_all add: s7_def collect_pages_simps collect_results_fields collect_results_flush f6
        List.map_filter_simps)
  have "collect_pages 3 [[Some r1], [Some r2], [Some r3], [Some r4], [Some r5], [Some r6], [Some r7]] st = s7"
    by (simp add: s7_def s6_def s3_def collect_pages_simps)
  then show ?thesis
    by (simp add: sink_def save_results_fields save_results_flush f7)
qed

lemma pages_of_two:
  assumes "result_rows st = []" and "output_csv st = Some [Header]"
  shows "sink (save_results (collect_pages 3 [[Some r1, Some r2], [Some r3, Some r4], [Some r5, Some r6], [Some r7]] st))
     = (flush_log st @ [[r1, r2, r3, r4], [r5, r6, r7]],
        Some [Header, Data r1, Data r2, Data r3, Data r4, Data r5, Data r6, Data r7], [])"
proof -
  define s2 where "s2 = collect_pages 3 [[Some r1, Some r2], [Some r3, Some r4]] st"
  define s4 where "s4 = collect_pages 3 [[Some r5, Some r6], [Some r7]] s2"
  have f2: "output_csv s2 = Some [Header, Data r1, Data r2, Data r3, Data r4]" "result_rows s2 = []"
    "flush_log s2 = flush_log st @ [[r1, r2, r3, r4]]"
    by (simp_all add: s2_def collect_pages_simps collect_results_fields collect_results_flush assms
        List.map_filter_simps)
  have f4: "output_csv s4 = Some [Header, Data r1, Data r2, Data r3, Data r4, Data r5, Data r6, Data r7]"
    "result_rows s4 = []" "flush_log s4 = flush_log st @ [[r1, r2, r3, r4], [r5, r6, r7]]"
    by (simp_all add: s4_def collect_pages_simps collect_results_fields collect_results_flush f2
        List.map_filter_simps)
  have "collect_pages 3 [[Some r1, Some r2], [Some r3, Some r4], [Some r5, Some r6], [Some r7]] st = s4"
    by (simp add: s4_def s2_def collect_pages_simps)
  then show ?thesis
    by (simp add: sink_def save_results_fields save_results_flush f4)
qed

lemma results_step:
  assumes "\<And>h. srv h (listing_url ''7'' page) = Resp 200 (listing_of ts)"
    and "ts \<noteq> []"
    and "\<And>h t. t \<in> set ts \<Longrightarrow> srv h (item_url t) = Resp 200 blank_page"
  shows "walk_results (Suc fuel) ascii_lib srv k ''7'' page st =
     map paper ts # walk_results fuel ascii_lib srv k ''7'' (page + 1)
       (collect_results k (map (\<lambda>t. Some (paper t)) ts)
          (st\<lparr>requests := requests st @ listing_url ''7'' page # map item_url ts,
              processed_count := processed_count st + length ts\<rparr>))"
proof -
  have "gather_articles ascii_lib srv ''7'' (map (\<lambda>t. (''7'', ''A paper'', item_url t)) ts) s =
     (map (\<lambda>t. Some (paper t)) ts,
      s\<lparr>requests := requests s @ map item_url ts,
        processed_count := processed_count s + length ts\<rparr>)" for s
    using assms(3) by (rule blank_items)
  moreover have "List.map_filter id (map (\<lambda>t. Some (paper t)) ts) = map paper ts"
    by (induction ts) (simp_all add: List.map_filter_simps)
  ultimately show ?thesis
    using assms(2) by (simp add: http_get_def assms(1) listing_of_articles)
qed

lemma results_last:
  assumes "\<And>h. srv h (listing_url ''7'' page) = Resp 200 blank_page"
  shows "walk_results (Suc fuel) ascii_lib srv k ''7'' page st = []"
  by (simp add: http_get_def assms parse_article_list_def blank_page_def)

lemma paged_walk:
  assumes "\<And>h i. i < length pages \<Longrightarrow>
             srv h (listing_url ''7'' (p + i)) = Resp 200 (listing_of (pages ! i))"
    and "\<And>h. srv h (listing_url ''7'' (p + length pages)) = Resp 200 blank_page"
    and "\<And>h t. t \<in> set (concat pages) \<Longrightarrow> srv h (item_url t) = Resp 200 blank_page"
    and "[] \<notin> set pages"
  shows "(\<exists>S. walk_pages (Suc (length pages)) ascii_lib srv k ''7'' p st = Some S)
       \<and> walk_results (Suc (length pages)) ascii_lib srv k ''7'' p st = map (map paper) pages"
  using assms
proof (induction pages arbitrary: p st)
  case Nil
  from Nil(2) have e: "\<And>h. srv h (listing_url ''7'' p) = Resp 200 blank_page" by simp
  have "walk_pages (Suc 0) ascii_lib srv k ''7'' p st =
          Some (st\<lparr>requests := requests st @ [listing_url ''7'' p]\<rparr>)"
    using e by (rule last_page)
  moreover have "walk_results (Suc 0) ascii_lib srv k ''7'' p st = []"
    using e by (rule results_last)
  ultimately show ?case by (simp del: walk_pages.simps walk_results.simps)
next
  case (Cons ts pages)
  have l: "\<And>h. srv h (listing_url ''7'' p) = Resp 200 (listing_of ts)"
    using Cons.prems(1) [of 0] by simp
  have n: "ts \<noteq> []" using Cons.prems(4) by auto
  have i: "\<And>h t. t \<in> set ts \<Longrightarrow> srv h (item_url t) = Resp 200 blank_page"
    using Cons.prems(3) by simp
  let ?st = "collect_results k (map (\<lambda>t. Some (paper t)) ts)
          (st\<lparr>requests := requests st @ listing_url ''7'' p # map item_url ts,
              processed_count := processed_count st + length ts\<rparr>)"
  have ih: "(\<exists>S. walk_pages (Suc (length pages)) ascii_lib srv k ''7'' (p + 1) ?st = Some S)
       \<and> walk_results (Suc (length pages)) ascii_lib srv k ''7'' (p + 1) ?st = map (map paper) pages"
  proof (rule Cons.IH)
    show "srv h (listing_url ''7'' (p + 1 + i)) = Resp 200 (listing_of (pages ! i))"
      if "i < length pages" for h i
      using Cons.prems(1) [of "Suc i" h] that by simp
    show "srv h (listing_url ''7'' (p + 1 + length pages)) = Resp 200 blank_page" for h
      using Cons.prems(2) [of h] by simp
    show "srv h (item_url t) = Resp 200 blank_page" if "t \<in> set (concat pages)" for h t
      using Cons.prems(3) [of t h] that by simp
    show "[] \<notin> set pages" using Cons.prems(4) by simp
  qed
  have "walk_pages (Suc (length (ts # pages))) ascii_lib srv k ''7'' p st
      = walk_pages (Suc (length pages)) ascii_lib srv k ''7'' (p + 1) ?st"
    unfolding length_Cons using l n i by (rule page_step)
  moreover have "walk_results (Suc (length (ts # pages))) ascii_lib srv k ''7'' p st
      = map paper ts # walk_results (Suc (length pages)) ascii_lib srv k ''7'' (p + 1) ?st"
    unfolding length_Cons using l n i by (rule results_step)
  ultimately show ?case using ih by simp
qed

lemma listing_urls:
  "listing_url ''7'' (Suc 0) = ''https://civilica.com/l/7/pgn-1/''"
  "listing_url ''7'' 2 = ''https://civilica.com/l/7/pgn-2/''"
  "listing_url ''7'' 3 = ''https://civilica.com/l/7/pgn-3/''"
  "listing_url ''7'' 4 = ''https://civilica.com/l/7/pgn-4/''"
  "listing_url ''7'' 5 = ''https://civilica.com/l/7/pgn-5/''"
  "listing_url ''7'' 6 = ''https://civilica.com/l/7/pgn-6/''"
  "listing_url ''7'' 7 = ''https://civilica.com/l/7/pgn-7/''"
  "listing_url ''7'' 8 = ''https://civilica.com/l/7/pgn-8/''"
  "listing_url ''7'' (Suc (Suc 0)) = ''https://civilica.com/l/7/pgn-2/''"
  "listing_url ''7'' (Suc (Suc (Suc 0))) = ''https://civilica.com/l/7/pgn-3/''"
  by code_simp+

lemma one_per_page_listings:
  "paged_server one_per_page h ''https://civilica.com/l/7/pgn-1/'' = Resp 200 (listing_of [''doc/1''])"
  "paged_server one_per_page h ''https://civilica.com/l/7/pgn-2/'' = Resp 200 (listing_of [''doc/2''])"
  "paged_server one_per_page h ''https://civilica.com/l/7/pgn-3/'' = Resp 200 (listing_of [''doc/3''])"
  "paged_server one_per_page h ''https://civilica.com/l/7/pgn-4/'' = Resp 200 (listing_of [''doc/4''])"
  "paged_server one_per_page h ''https://civilica.com/l/7/pgn-5/'' = Resp 200 (listing_of [''doc/5''])"
  "paged_server one_per_page h ''https://civilica.com/l/7/pgn-6/'' = Resp 200 (listing_of [''doc/6''])"
  "paged_server one_per_page h ''https://civilica.com/l/7/pgn-7/'' = Resp 200 (listing_of [''doc/7''])"
  "paged_server one_per_page h ''https://civilica.com/l/7/pgn-8/'' = Resp 200 blank_page"
  by code_simp+

lemma one_per_page_items:
  "paged_server one_per_page h (item_url ''doc/1'') = Resp 200 blank_page"
  "paged_server one_per_page h (item_url ''doc/2'') = Resp 200 blank_page"
  "paged_server one_per_page h (item_url ''doc/3'') = Resp 200 blank_page"
  "paged_server one_per_page h (item_url ''doc/4'') = Resp 200 blank_page"
  "paged_server one_per_page h (item_url ''doc/5'') = Resp 200 blank_page"
  "paged_server one_per_page h (item_url ''doc/6'') = Resp 200 blank_page"
  "paged_server one_per_page h (item_url ''doc/7'') = Resp 200 blank_page"
  by code_simp+

lemma first_only_ids:
  "py_slice (eligible_ids collection_7) (arg_start first_only) (arg_end first_only) = [''7'']"
  by (simp add: py_slice_def slice_index_def eligible_ids_def collection_7_def first_only_def)

lemma paged_run:
  assumes "\<And>h i. i < length pages \<Longrightarrow>
             srv h (listing_url ''7'' (1 + i)) = Resp 200 (listing_of (pages ! i))"
    and "\<And>h. srv h (listing_url ''7'' (1 + length pages)) = Resp 200 blank_page"
    and "\<And>h t. t \<in> set (concat pages) \<Longrightarrow> srv h (item_url t) = Resp 200 blank_page"
    and "[] \<notin> set pages"
  shows "(\<exists>S. run (Suc (length pages)) ascii_lib srv k first_only (Some collection_7) st = Some (Returned, S))
       \<and> run_results (Suc (length pages)) ascii_lib srv k first_only collection_7 st = map (map paper) pages"
proof -
  let ?st1 = "st\<lparr>output_csv := Some [Header]\<rparr>"
  have "(\<exists>S. walk_pages (Suc (length pages)) ascii_lib srv k ''7'' 1 ?st1 = Some S)
       \<and> walk_results (Suc (length pages)) ascii_lib srv k ''7'' 1 ?st1 = map (map paper) pages"
    using assms by (rule paged_walk)
  then obtain S where
    w: "walk_pages (Suc (length pages)) ascii_lib srv k ''7'' 1 ?st1 = Some S" and
    r: "walk_results (Suc (length pages)) ascii_lib srv k ''7'' 1 ?st1 = map (map paper) pages"
    by blast
  from w have "\<exists>S. run (Suc (length pages)) ascii_lib srv k first_only (Some collection_7) st = Some (Returned, S)"
    by (simp add: run_def first_only_ids process_conference_def Let_def del: walk_pages.simps)
  moreover from w r
  have "run_results (Suc (length pages)) ascii_lib srv k first_only collection_7 st = map (map paper) pages"
    by (simp add: run_results_def first_only_ids process_conference_def
        del: walk_pages.simps walk_results.simps)
  ultimately show ?thesis by blast
qed

lemma one_per_page_run:
  "(\<exists>S. run 8 ascii_lib (paged_server one_per_page) k first_only (Some collection_7) st = Some (Returned, S))
   \<and> run_results 8 ascii_lib (paged_server one_per_page) k first_only collection_7 st
       = [[paper ''doc/1''], [paper ''doc/2''], [paper ''doc/3''], [paper ''doc/4''],
          [paper ''doc/5''], [paper ''doc/6''], [paper ''doc/7'']]"
proof -
  have "(\<exists>S. run (Suc (length one_per_page)) ascii_lib (paged_server one_per_page) k first_only
               (Some collection_7) st = Some (Returned, S))
       \<and> run_results (Suc (length one_per_page)) ascii_lib (paged_server one_per_page) k first_only
           collection_7 st = map (map paper) one_per_page"
  proof (rule paged_run)
    show "paged_server one_per_page h (listing_url ''7'' (1 + i)) = Resp 200 (listing_of (one_per_page ! i))"
      if "i < length one_per_page" for h i
    proof -
      from that have "i = 0 \<or> i = 1 \<or> i = 2 \<or> i = 3 \<or> i = 4 \<or> i = 5 \<or> i = 6"
        by (simp add: one_per_page_def) arith
      then show ?thesis
        by (elim disjE) (simp_all add: one_per_page_listings listing_urls, simp_all add: one_per_page_def)
    qed
    show "paged_server one_per_page h (listing_url ''7'' (1 + length one_per_page)) = Resp 200 blank_page" for h
    proof -
      have "1 + length one_per_page = 8" by (simp add: one_per_page_def)
      then show ?thesis by (simp only: one_per_page_listings listing_urls)
    qed
    show "paged_server one_per_page h (item_url t) = Resp 200 blank_page"
      if "t \<in> set (concat one_per_page)" for h t
    proof -
      from that have "t \<in> {''doc/1'', ''doc/2'', ''doc/3'', ''doc/4'', ''doc/5'', ''doc/6'', ''doc/7''}"
        by (simp add: one_per_page_def)
      then show ?thesis
        by (elim insertE emptyE) (simp_all only: one_per_page_items)
    qed
    show "[] \<notin> set one_per_page" by (simp add: one_per_page_def)
  qed
  moreover have "Suc (length one_per_page) = 8" by (simp add: one_per_page_def)
  moreover have "map (map paper) one_per_page =
      [[paper ''doc/1''], [paper ''doc/2''], [paper ''doc/3''], [paper ''doc/4''],
       [paper ''doc/5''], [paper ''doc/6''], [paper ''doc/7'']]"
    by (simp add: one_per_page_def)
  ultimately show ?thesis by (simp only:)
qed

lemma two_per_page_listings:
  "paged_server two_per_page h ''https://civilica.com/l/7/pgn-1/'' = Resp 200 (listing_of [''doc/1'', ''doc/2''])"
  "paged_server two_per_page h ''https://civilica.com/l/7/pgn-2/'' = Resp 200 (listing_of [''doc/3'', ''doc/4''])"
  "paged_server two_per_page h ''https://civilica.com/l/7/pgn-3/'' = Resp 200 (listing_of [''doc/5'', ''doc/6''])"
  "paged_server two_per_page h ''https://civilica.com/l/7/pgn-4/'' = Resp 200 (listing_of [''doc/7''])"
  "paged_server two_per_page h ''https://civilica.com/l/7/pgn-5/'' = Resp 200 blank_page"
  by code_simp+

lemma two_per_page_items:
  "paged_server two_per_page h (item_url ''doc/1'') = Resp 200 blank_page"
  "paged_server two_per_page h (item_url ''doc/2'') = Resp 200 blank_page"
  "paged_server two_per_page h (item_url ''doc/3'') = Resp 200 blank_page"
  "paged_server two_per_page h (item_url ''doc/4'') = Resp 200 blank_page"
  "paged_server two_per_page h (item_url ''doc/5'') = Resp 200 blank_page"
  "paged_server two_per_page h (item_url ''doc/6'') = Resp 200 blank_page"
  "paged_server two_per_page h (item_url ''doc/7'') = Resp 200 blank_page"
  by code_simp+

lemma two_per_page_run:
  "(\<exists>S. run 5 ascii_lib (paged_server two_per_page) k first_only (Some collection_7) st = Some (Returned, S))
   \<and> run_results 5 ascii_lib (paged_server two_per_page) k first_only collection_7 st
       = [[paper ''doc/1'', paper ''doc/2''], [paper ''doc/3'', paper ''doc/4''],
          [paper ''doc/5'', paper ''doc/6''], [paper ''doc/7'']]"
proof -
  have "(\<exists>S. run (Suc (length two_per_page)) ascii_lib (paged_server two_per_page) k first_only
               (Some collection_7) st = Some (Returned, S))
       \<and> run_results (Suc (length two_per_page)) ascii_lib (paged_server two_per_page) k first_only
           collection_7 st = map (map paper) two_per_page"
  proof (rule paged_run)
    show "paged_server two_per_page h (listing_url ''7'' (1 + i)) = Resp 200 (listing_of (two_per_page ! i))"
      if "i < length two_per_page" for h i
    proof -
      from that have "i = 0 \<or> i = 1 \<or> i = 2 \<or> i = 3"
        by (simp add: two_per_page_def) arith
      then show ?thesis
        by (elim disjE) (simp_all add: two_per_page_listings listing_urls, simp_all add: two_per_page_def)
    qed
    show "paged_server two_per_page h (listing_url ''7'' (1 + length two_per_page)) = Resp 200 blank_page" for h
    proof -
      have "1 + length two_per_page = 5" by (simp add: two_per_page_def)
      then show ?thesis by (simp only: two_per_page_listings listing_urls)
    qed
    show "paged_server two_per_page h (item_url t) = Resp 200 blank_page"
      if "t \<in> set (concat two_per_page)" for h t
    proof -
      from that have "t \<in> {''doc/1'', ''doc/2'', ''doc/3'', ''doc/4'', ''doc/5'', ''doc/6'', ''doc/7''}"
        by (simp add: two_per_page_def)
      then show ?thesis
        by (elim insertE emptyE) (simp_all only: two_per_page_items)
    qed
    show "[] \<notin> set two_per_page" by (simp add: two_per_page_def)
  qed
  moreover have "Suc (length two_per_page) = 5" by (simp add: two_per_page_def)
  moreover have "map (map paper) two_per_page =
      [[paper ''doc/1'', paper ''doc/2''], [paper ''doc/3'', paper ''doc/4''],
       [paper ''doc/5'', paper ''doc/6''], [paper ''doc/7'']]"
    by (simp add: two_per_page_def)
  ultimately show ?thesis by (simp only:)
qed









section \<open>The claims\<close>

subsection \<open>C1: a listing page that cannot be fetched\<close>




subsection \<open>C2: resuming the redirect resolver\<close>

text \<open>
  C2 at a concrete run: the existing output holds A and B, both resolved, and the input
  holds A, B and C. Only C is submitted, but the final output is rebuilt from the results
  of this run alone, so the entries of A and B are written back empty.
\<close>

theorem resume_loses_resolved_entries:
  "resolver_main
     (Some [\<lparr>website = Some ''A'', other_columns = []\<rparr>,
            \<lparr>website = Some ''B'', other_columns = []\<rparr>,
            \<lparr>website = Some ''C'', other_columns = []\<rparr>])
     (Frame [(\<lparr>website = Some ''A'', other_columns = []\<rparr>, Some ''A1''),
             (\<lparr>website = Some ''B'', other_columns = []\<rparr>, Some ''B1'')])
     0 None 100 (Some \<circ> (\<lambda>u. u @ ''1''))
   = Inr \<lparr>submitted = [''C''],
          final_output =
            Frame [(\<lparr>website = Some ''A'', other_columns = []\<rparr>, None),
                   (\<lparr>website = Some ''B'', other_columns = []\<rparr>, None),
                   (\<lparr>website = Some ''C'', other_columns = []\<rparr>, Some ''C1'')]\<rparr>"
  by (simp add: resolver_main_def iloc_def py_slice_def slice_index_def already_done_def
      snapshot_def List.map_filter_simps)

subsection \<open>C3: retries\<close>

text \<open>
  C3 at a concrete item: the asynchronous scraper asks once for an item whose server
  always answers 503, then records the failure, although \<open>MAX_RETRIES\<close> is 3.
\<close>

theorem single_attempt_on_503:
  "MAX_RETRIES = 3 \<and>
   process_article ascii_lib unavailable_server ''7'' ''A paper'' ''https://civilica.com/doc/1'' fresh_world =
     (None, fresh_world\<lparr>requests := [''https://civilica.com/doc/1''],
              error_log := [''Article failed: https://civilica.com/doc/1 - Status 503''],
              failed_urls := [\<lparr>conference_id = ''7'', url = ''https://civilica.com/doc/1'',
                               error = ''Status 503''\<rparr>]\<rparr>)"
  by (simp add: MAX_RETRIES_def process_article_def http_get_def unavailable_server_def
      record_failure_def fresh_world_def string_of_nat_values)

subsection \<open>C4: the flush cadence\<close>

text \<open>
  C4, as the code has it. The threshold is tested once per listing page, after all the
  records of the page have joined the buffer: at the end of a page the buffer is written
  out and emptied exactly when it holds \<open>save_every\<close> rows or more (and is not empty), and
  it stays as it is otherwise; no row is lost either way. For every run that returns, the
  batches written, the file and the buffer are those of collecting the results page by page
  and saving once more at the end. So for every run with a threshold of 3, started as
  \<open>main\<close> starts it on a new scraper object, in which seven records arrive one per
  listing page, three batches are
  written: the first three records after the third, the next three after the sixth, and the
  seventh by the final save; the file then holds the header and the seven rows, in order,
  and the buffer is empty.
\<close>

theorem flush_cadence:
  "result_rows (collect_results k rs st) =
      (if k \<le> length (result_rows st @ List.map_filter id rs) then []
       else result_rows st @ List.map_filter id rs)
   \<and> flush_log (collect_results k rs st) =
      (if k \<le> length (result_rows st @ List.map_filter id rs) \<and> result_rows st @ List.map_filter id rs \<noteq> []
       then flush_log st @ [result_rows st @ List.map_filter id rs]
       else flush_log st)
   \<and> emitted (collect_results k rs st) = emitted st @ List.map_filter id rs
   \<and> (run fuel lib srv k a (Some df) st = Some (oc, st') \<longrightarrow>
        sink st' = sink (save_results (collect_pages k (map (map Some) (run_results fuel lib srv k a df st))
                           (st\<lparr>output_csv := Some [Header]\<rparr>))))
   \<and> (run fuel lib srv 3 a (Some df) (init_scraper w) = Some (oc, s')
        \<and> run_results fuel lib srv 3 a df (init_scraper w) = [[r1], [r2], [r3], [r4], [r5], [r6], [r7]] \<longrightarrow>
        flush_log s' = flush_log w @ [[r1, r2, r3], [r4, r5, r6], [r7]]
        \<and> output_csv s' = Some [Header, Data r1, Data r2, Data r3, Data r4, Data r5, Data r6, Data r7]
        \<and> result_rows s' = [])"
proof -
  have a: "result_rows (collect_results k rs st) =
      (if k \<le> length (result_rows st @ List.map_filter id rs) then []
       else result_rows st @ List.map_filter id rs)"
    by (rule collect_results_fields)
  have b: "flush_log (collect_results k rs st) =
      (if k \<le> length (result_rows st @ List.map_filter id rs) \<and> result_rows st @ List.map_filter id rs \<noteq> []
       then flush_log st @ [result_rows st @ List.map_filter id rs]
       else flush_log st)"
    by (rule collect_results_flush)
  have c: "emitted (collect_results k rs st) = emitted st @ List.map_filter id rs"
    by (rule collect_results_emitted)
  have d: "sink st' = sink (save_results (collect_pages k (map (map Some) (run_results fuel lib srv k a df st))
                           (st\<lparr>output_csv := Some [Header]\<rparr>)))"
    if "run fuel lib srv k a (Some df) st = Some (oc, st')"
    using that by (rule run_sink)
  have e: "flush_log s' = flush_log w @ [[r1, r2, r3], [r4, r5, r6], [r7]]
        \<and> output_csv s' = Some [Header, Data r1, Data r2, Data r3, Data r4, Data r5, Data r6, Data r7]
        \<and> result_rows s' = []"
    if r: "run fuel lib srv 3 a (Some df) (init_scraper w) = Some (oc, s')"
      and p: "run_results fuel lib srv 3 a df (init_scraper w) = [[r1], [r2], [r3], [r4], [r5], [r6], [r7]]"
  proof -
    let ?st1 = "(init_scraper w)\<lparr>output_csv := Some [Header]\<rparr>"
    have "sink s' = sink (save_results (collect_pages 3
            [[Some r1], [Some r2], [Some r3], [Some r4], [Some r5], [Some r6], [Some r7]] ?st1))"
      using run_sink [OF r] by (simp add: p)
    also have "\<dots> = (flush_log ?st1 @ [[r1, r2, r3], [r4, r5, r6], [r7]],
        Some [Header, Data r1, Data r2, Data r3, Data r4, Data r5, Data r6, Data r7], [])"
      by (rule seven_pages_of_one) (simp_all add: init_scraper_def)
    finally show ?thesis by (simp add: sink_def init_scraper_def)
  qed
  from a b c d e show ?thesis by blast
qed

theorem flush_cadence_witness:
  "map_option (\<lambda>(oc, s). (oc, flush_log s, output_csv s, result_rows s))
     (run 8 ascii_lib (paged_server one_per_page) 3 first_only (Some collection_7) fresh_world)
   = Some (Returned,
           [[paper ''doc/1'', paper ''doc/2'', paper ''doc/3''],
            [paper ''doc/4'', paper ''doc/5'', paper ''doc/6''], [paper ''doc/7'']],
           Some [Header, Data (paper ''doc/1''), Data (paper ''doc/2''), Data (paper ''doc/3''),
                 Data (paper ''doc/4''), Data (paper ''doc/5''), Data (paper ''doc/6''),
                 Data (paper ''doc/7'')],
           [])"
proof -
  from one_per_page_run [of 3 fresh_world] obtain S where
    r: "run 8 ascii_lib (paged_server one_per_page) 3 first_only (Some collection_7) fresh_world
          = Some (Returned, S)" and
    p: "run_results 8 ascii_lib (paged_server one_per_page) 3 first_only collection_7 fresh_world
          = [[paper ''doc/1''], [paper ''doc/2''], [paper ''doc/3''], [paper ''doc/4''],
             [paper ''doc/5''], [paper ''doc/6''], [paper ''doc/7'']]"
    by blast
  have n: "init_scraper fresh_world = fresh_world" "flush_log fresh_world = []"
    by (simp_all add: init_scraper_def fresh_world_def)
  note t = flush_cadence [where fuel = 8 and lib = ascii_lib and srv = "paged_server one_per_page"
      and a = first_only and df = collection_7 and w = fresh_world and oc = Returned and s' = S
      and ?r1.0 = "paper ''doc/1''" and ?r2.0 = "paper ''doc/2''" and ?r3.0 = "paper ''doc/3''"
      and ?r4.0 = "paper ''doc/4''" and ?r5.0 = "paper ''doc/5''" and ?r6.0 = "paper ''doc/6''"
      and ?r7.0 = "paper ''doc/7''"]
  from t r p have
    "flush_log S = flush_log fresh_world @
       [[paper ''doc/1'', paper ''doc/2'', paper ''doc/3''],
        [paper ''doc/4'', paper ''doc/5'', paper ''doc/6''], [paper ''doc/7'']]"
    "output_csv S = Some [Header, Data (paper ''doc/1''), Data (paper ''doc/2''), Data (paper ''doc/3''),
                 Data (paper ''doc/4''), Data (paper ''doc/5''), Data (paper ''doc/6''),
                 Data (paper ''doc/7'')]"
    "result_rows S = []"
    unfolding n(1) by blast+
  then show ?thesis
    by (simp add: r n(2))
qed

text \<open>
  The claim as stated asks for a flush as soon as the third record has arrived. When the
  seven records arrive two per listing page, the first batch is written after the fourth
  record and holds four rows, the second holds the other three, and the final save writes
  nothing.
\<close>

theorem pages_of_two_counterexample:
  "map_option (flush_log \<circ> snd)
     (run 5 ascii_lib (paged_server two_per_page) 3 first_only (Some collection_7) fresh_world)
   = Some [[paper ''doc/1'', paper ''doc/2'', paper ''doc/3'', paper ''doc/4''],
           [paper ''doc/5'', paper ''doc/6'', paper ''doc/7'']]"
proof -
  let ?st1 = "fresh_world\<lparr>output_csv := Some [Header]\<rparr>"
  from two_per_page_run [of 3 fresh_world] obtain S where
    r: "run 5 ascii_lib (paged_server two_per_page) 3 first_only (Some collection_7) fresh_world
          = Some (Returned, S)" and
    p: "run_results 5 ascii_lib (paged_server two_per_page) 3 first_only collection_7 fresh_world
          = [[paper ''doc/1'', paper ''doc/2''], [paper ''doc/3'', paper ''doc/4''],
             [paper ''doc/5'', paper ''doc/6''], [paper ''doc/7'']]"
    by blast
  have "sink S = sink (save_results (collect_pages 3
          [[Some (paper ''doc/1''), Some (paper ''doc/2'')], [Some (paper ''doc/3''), Some (paper ''doc/4'')],
           [Some (paper ''doc/5''), Some (paper ''doc/6'')], [Some (paper ''doc/7'')]] ?st1))"
    using run_sink [OF r] by (simp add: p)
  also have "\<dots> = (flush_log ?st1 @
        [[paper ''doc/1'', paper ''doc/2'', paper ''doc/3'', paper ''doc/4''],
         [paper ''doc/5'', paper ''doc/6'', paper ''doc/7'']],
        Some [Header, Data (paper ''doc/1''), Data (paper ''doc/2''), Data (paper ''doc/3''),
              Data (paper ''doc/4''), Data (paper ''doc/5''), Data (paper ''doc/6''),
              Data (paper ''doc/7'')], [])"
    by (rule pages_of_two) (simp_all add: fresh_world_def)
  finally have "flush_log S = [[paper ''doc/1'', paper ''doc/2'', paper ''doc/3'', paper ''doc/4''],
           [paper ''doc/5'', paper ''doc/6'', paper ''doc/7'']]"
    by (simp add: sink_def fresh_world_def)
  then show ?thesis by (simp add: r)
qed

subsection \<open>C5: an item page with missing fields\<close>

text \<open>
  C5, as the code has it. An item page that is fetched with status 200, and whose
  citation block (if there is one) holds a paragraph, always yields a record, leaves the
  failure list as it was and counts as processed. In that record the abstract, the
  citation and the keywords are empty when their element is missing, the authors are empty
  and the author map is the JSON text of the empty object when no author block has a name,
  the conference name, the year and the page count are always empty, and a missing view
  count is the string 0, not the empty string.
\<close>

theorem missing_fields_default:
  assumes "srv (requests st) link = Resp 200 html"
    and "citation_block html \<noteq> Some (Blockquote None)"
  shows "\<exists>row. process_article lib srv cid title link st =
           (Some row, st\<lparr>requests := requests st @ [link], processed_count := processed_count st + 1\<rparr>)
     \<and> Conference_ID row = cid \<and> Title row = title \<and> Link row = link
     \<and> (abstract_div html = None \<longrightarrow> Abstract row = [])
     \<and> (citation_block html = None \<longrightarrow> Citation row = [])
     \<and> (list_all (\<lambda>b. name_tag b = None) (author_blocks html) \<longrightarrow>
          Authors row = [] \<and> Authors_Map row = ''{}'')
     \<and> (view_tag html = None \<longrightarrow> View_Count row = ''0'')
     \<and> (keyword_container html = None \<longrightarrow> Keywords row = [])
     \<and> Conference_Name row = [] \<and> Year row = [] \<and> Page_Count row = []"
proof -
  note d = parse_article_page_Inr [OF assms(2), of lib]
  have empty_map: "json_dumps [] = ''{}''"
    by (simp add: json_dumps_def)
  show ?thesis
    unfolding process_article_def http_get_def
    by (simp add: assms(1) d authors_loop_unnamed dict_keys_def empty_map
        extract_keywords_from_page_def)
qed

theorem missing_fields_default_witness:
  "\<exists>row. process_article ascii_lib blank_server ''7'' ''A paper'' ''https://civilica.com/doc/1'' fresh_world =
           (Some row, fresh_world\<lparr>requests := [''https://civilica.com/doc/1''], processed_count := 1\<rparr>)
     \<and> Conference_ID row = ''7'' \<and> Title row = ''A paper'' \<and> Link row = ''https://civilica.com/doc/1''
     \<and> Abstract row = [] \<and> Citation row = [] \<and> Authors row = [] \<and> Authors_Map row = ''{}''
     \<and> View_Count row = ''0'' \<and> Keywords row = []
     \<and> Conference_Name row = [] \<and> Year row = [] \<and> Page_Count row = []"
proof -
  have a: "blank_server (requests fresh_world) ''https://civilica.com/doc/1'' = Resp 200 blank_page"
    by (simp add: blank_server_def)
  have b: "citation_block blank_page \<noteq> Some (Blockquote None)"
    by (simp add: blank_page_def)
  from missing_fields_default [where srv = blank_server and st = fresh_world and html = blank_page
      and link = "''https://civilica.com/doc/1''" and lib = ascii_lib and cid = "''7''"
      and title = "''A paper''", OF a b]
  show ?thesis
    by (simp add: blank_page_def fresh_world_def)
qed

text \<open>
  The claim as stated asks for an empty string in every missing field. A page on which
  nothing is found yields the view count 0.
\<close>

theorem missing_view_count_counterexample:
  "map_option View_Count
     (fst (process_article ascii_lib blank_server ''7'' ''A paper'' ''https://civilica.com/doc/1'' fresh_world))
   = Some ''0''"
  by (simp add: blank_article blank_record_def)

subsection \<open>C6: an invalid index range\<close>

text \<open>
  C6, as the code has it. With a negative start or an end that is not greater than the
  start, \<open>main\<close> logs the error and returns: no request is made, the output file
  and the failure log are not touched, the scraper is not even built. Since \<open>main\<close>
  returns, the exit status is 0.
\<close>

theorem invalid_range_returns:
  "arg_start a < 0 \<or> arg_end a \<le> arg_start a \<Longrightarrow>
     main fuel lib srv k a input w =
       Some (Returned, w\<lparr>error_log := error_log w @ [invalid_range_message]\<rparr>)
     \<and> exit_status Returned = 0"
  by (simp add: main_def)

theorem invalid_range_returns_witness:
  "main 1 ascii_lib blank_server SAVE_EVERY \<lparr>arg_start = 5, arg_end = 2\<rparr> (Some [(''7'', Some ''k'')]) fresh_world =
       Some (Returned, fresh_world\<lparr>error_log := [invalid_range_message]\<rparr>)
     \<and> exit_status Returned = 0"
  using invalid_range_returns [of "\<lparr>arg_start = 5, arg_end = 2\<rparr>" 1 ascii_lib blank_server SAVE_EVERY "Some [(''7'', Some ''k'')]" fresh_world]
  by (simp add: fresh_world_def)

text \<open>The claim as stated asks for a non-zero exit status; start = -1 exits with 0.\<close>

theorem invalid_range_exit_counterexample:
  "map_option (exit_status \<circ> fst)
     (main 1 ascii_lib blank_server SAVE_EVERY \<lparr>arg_start = - 1, arg_end = 5\<rparr> (Some [(''7'', Some ''k'')]) fresh_world)
   = Some 0"
  by (simp add: main_def)

subsection \<open>C7: the failure log at the end of a run\<close>




subsection \<open>C8: one header row\<close>

text \<open>
  C8. A run begins by writing the output file anew with the header. Whatever the results
  of the pages that follow and whatever the threshold, the file is the header followed by
  data rows only, after every page and after the final save: a save appends data rows to a
  file that exists and never writes the header again. A run that returns therefore leaves
  the header followed by data rows, and an empty buffer.
\<close>

theorem header_written_once:
  "(\<exists>rows. output_csv (collect_pages k batches (st\<lparr>output_csv := Some [Header]\<rparr>))
            = Some (Header # map Data rows))
   \<and> (\<exists>rows. output_csv (save_results (collect_pages k batches (st\<lparr>output_csv := Some [Header]\<rparr>)))
            = Some (Header # map Data rows))
   \<and> (run fuel lib srv k a (Some df) st = Some (oc, st') \<longrightarrow>
        (\<exists>rows. output_csv st' = Some (Header # map Data rows)) \<and> result_rows st' = [])"
proof -
  let ?st0 = "st\<lparr>output_csv := Some [Header]\<rparr>"
  have "output_csv ?st0 = Some [Header]" by simp
  from collect_pages_file [OF this, of k batches] obtain rows where
    f: "output_csv (collect_pages k batches ?st0) = Some (Header # map Data rows)"
    by auto
  from save_results_file [OF f]
  have "output_csv (save_results (collect_pages k batches ?st0))
          = Some (Header # map Data (rows @ result_rows (collect_pages k batches ?st0)))"
    by simp
  with f run_files(2,3) [of fuel lib srv k a df st oc st'] show ?thesis
    by blast
qed

theorem header_written_once_witness:
  "(\<exists>rows. output_csv (collect_pages 1 [[Some blank_record], [None], [Some blank_record]]
       (fresh_world\<lparr>output_csv := Some [Header]\<rparr>)) = Some (Header # map Data rows))
   \<and> (\<exists>rows. output_csv (save_results (collect_pages 1 [[Some blank_record], [None], [Some blank_record]]
       (fresh_world\<lparr>output_csv := Some [Header]\<rparr>))) = Some (Header # map Data rows))
   \<and> (\<exists>rows. output_csv one_item_run = Some (Header # map Data rows)) \<and> result_rows one_item_run = []"
  using header_written_once [where k = 1 and batches = "[[Some blank_record], [None], [Some blank_record]]"
      and st = fresh_world and fuel = 2 and lib = ascii_lib and srv = one_item_server
      and a = "\<lparr>arg_start = 0, arg_end = 1\<rparr>" and df = "[(''7'', Some ''k'')]" and oc = Returned
      and st' = one_item_run]
    one_item_run_eval
  by blast

subsection \<open>C9: one record per item reference\<close>




subsection \<open>C10: the authors and the author map\<close>

text \<open>
  C10. Every record the asynchronous scraper emits comes from a page fetched with status
  200. Its \<open>Authors_Map\<close> field is a JSON object that can be read back; the keys of that
  object, in the order of the text, joined by a comma and a space are its \<open>Authors\<close>
  field; and these keys are the author names in the order in which they were found on the
  page, each name once.
\<close>

theorem authors_join_of_map_keys:
  assumes "process_article lib srv cid title link st = (Some row, st')"
  shows "\<exists>html keys.
     srv (requests st) link = Resp 200 html
     \<and> map_option dict_keys (json_loads (Authors_Map row)) = Some keys
     \<and> Authors row = join '', '' keys
     \<and> keys = drop_duplicates (map (py_strip lib) (List.map_filter name_tag (author_blocks html)))"
proof -
  from process_article_Some [OF assms] obtain html d where
    r: "srv (requests st) link = Resp 200 html" and p: "parse_article_page lib html = Inr d" and
    a: "Authors row = d_authors d" and m: "Authors_Map row = json_dumps (d_authors_map d)"
    by blast
  let ?map = "authors_loop lib (author_blocks html)"
  from parse_article_page_authors [OF p] a m
  have "Authors_Map row = json_dumps ?map" and j: "Authors row = join '', '' (dict_keys ?map)"
    by simp_all
  then have "map_option dict_keys (json_loads (Authors_Map row)) = Some (dict_keys ?map)"
    by (simp add: json_loads_dumps)
  with r j authors_loop_keys [of lib "author_blocks html"] show ?thesis by metis
qed

theorem authors_join_of_map_keys_witness:
  "map_option dict_keys (json_loads (Authors_Map authors_record)) = Some [''Ada'', ''Bob'']
   \<and> Authors authors_record = join '', '' [''Ada'', ''Bob'']
   \<and> [''Ada'', ''Bob''] =
       drop_duplicates (map (py_strip ascii_lib) (List.map_filter name_tag (author_blocks authors_page)))"
proof -
  from authors_join_of_map_keys [OF authors_article] obtain html keys where
    h: "authors_server (requests fresh_world) ''https://civilica.com/doc/1'' = Resp 200 html" and
    rest: "map_option dict_keys (json_loads (Authors_Map authors_record)) = Some keys"
      "Authors authors_record = join '', '' keys"
      "keys = drop_duplicates (map (py_strip ascii_lib) (List.map_filter name_tag (author_blocks html)))"
    by blast
  from h have html: "html = authors_page"
    by (simp add: authors_server_def)
  from rest(1) authors_record_keys have keys: "keys = [''Ada'', ''Bob'']"
    by simp
  from rest show ?thesis
    unfolding html keys by (intro conjI)
qed

end
